theory Spec2Isabelle
  imports Main "HOL-Library.Word" "HOL-Library.Sublist"
begin

unbundle bit_operations_syntax

section \<open>Firelet core (lib/flcore.py): a shallow embedding\<close>

text \<open>
  The Python source is dynamically typed; the embedding fixes the types the code relies on.
  Every \<^verbatim>\<open>raise\<close>, failed \<^verbatim>\<open>assert\<close> and failed lookup of the source is a value
  of the type \<open>error\<close>, and a fallible function returns \<open>error + 'a\<close>.
\<close>

subsection \<open>Exceptions\<close>

datatype error =
    AssertionError string  \<comment> \<open>a failed \<^verbatim>\<open>assert\<close>; carries the static part of its message\<close>
  | Alert string           \<comment> \<open>\<^verbatim>\<open>raise Alert, ...\<close>\<close>
  | PyException            \<comment> \<open>\<^verbatim>\<open>raise Exception, ...\<close> in \<^verbatim>\<open>HostGroup.flat\<close>\<close>
  | KeyError               \<comment> \<open>a dictionary read with a missing key\<close>
  | IndexError             \<comment> \<open>a list read out of range\<close>
  | TypeError              \<comment> \<open>unpacking a non-iterable, a bad format string\<close>
  | UnboundLocalError      \<comment> \<open>a local variable read before assignment\<close>
  | NameError              \<comment> \<open>a name that is defined nowhere\<close>
  | AddrFormatError        \<comment> \<open>netaddr rejecting a prefix length\<close>
  | RuntimeError           \<comment> \<open>maximum recursion depth exceeded\<close>

definition bind_err :: "error + 'a \<Rightarrow> ('a \<Rightarrow> error + 'b) \<Rightarrow> error + 'b" where
  "bind_err m f = (case m of Inl e \<Rightarrow> Inl e | Inr x \<Rightarrow> f x)"

fun mapM_err :: "('a \<Rightarrow> error + 'b) \<Rightarrow> 'a list \<Rightarrow> error + 'b list" where
  "mapM_err f [] = Inr []"
| "mapM_err f (x # xs) =
     (case f x of Inl e \<Rightarrow> Inl e
      | Inr y \<Rightarrow> (case mapM_err f xs of Inl e \<Rightarrow> Inl e | Inr ys \<Rightarrow> Inr (y # ys)))"

fun foldM_err :: "('s \<Rightarrow> 'a \<Rightarrow> error + 's) \<Rightarrow> 's \<Rightarrow> 'a list \<Rightarrow> error + 's" where
  "foldM_err f s [] = Inr s"
| "foldM_err f s (x # xs) = (case f s x of Inl e \<Rightarrow> Inl e | Inr s' \<Rightarrow> foldM_err f s' xs)"

text \<open>\<^verbatim>\<open>dict(pairs)\<close>: a later pair with the same key replaces an earlier one.\<close>

definition py_dict :: "('k \<times> 'v) list \<Rightarrow> ('k \<rightharpoonup> 'v)" where
  "py_dict kvs = map_of (rev kvs)"

subsection \<open>Strings\<close>

text \<open>\<^verbatim>\<open>"%d" % n\<close>: the decimal digits of an integer.\<close>

definition digit_char :: "nat \<Rightarrow> char" where
  "digit_char d = ''0123456789'' ! d"

function dec :: "nat \<Rightarrow> string" where
  "dec n = (if n < 10 then [digit_char n] else dec (n div 10) @ [digit_char (n mod 10)])"
  by pat_completeness auto
termination
  by (relation "measure id") auto

declare dec.simps [simp del]

definition str_int :: "int \<Rightarrow> string" where
  "str_int i = (if i < 0 then CHR ''-'' # dec (nat (- i)) else dec (nat i))"

text \<open>
  \<^verbatim>\<open>int(s)\<close> on a string, as Python 2 reads it: white space around the number is dropped
  (the characters for which \<^verbatim>\<open>isspace\<close> holds: tab, line feed, vertical tab, form feed,
  carriage return, space), then an optional sign, which white space may follow, stands before
  one or more decimal digits; anything else is a \<^verbatim>\<open>ValueError\<close> (None).
\<close>

definition is_space :: "char \<Rightarrow> bool" where
  "is_space c = ((of_char c :: nat) \<in> {9, 10, 11, 12, 13, 32})"

definition py_strip :: "string \<Rightarrow> string" where
  "py_strip s = rev (dropWhile is_space (rev (dropWhile is_space s)))"

definition digit_val :: "char \<Rightarrow> nat option" where
  "digit_val c = (let k = (of_char c :: nat) in if 48 \<le> k \<and> k \<le> 57 then Some (k - 48) else None)"

fun parse_digits :: "nat \<Rightarrow> string \<Rightarrow> nat option" where
  "parse_digits acc [] = Some acc"
| "parse_digits acc (c # cs) =
     (case digit_val c of None \<Rightarrow> None | Some d \<Rightarrow> parse_digits (10 * acc + d) cs)"

definition parse_nat :: "string \<Rightarrow> nat option" where
  "parse_nat s = (if s = [] then None else parse_digits 0 s)"

definition py_int :: "string \<Rightarrow> int option" where
  "py_int s =
     (case py_strip s of
        [] \<Rightarrow> None
      | c # cs \<Rightarrow>
          if c = CHR ''-'' then map_option (\<lambda>n. - int n) (parse_nat (dropWhile is_space cs))
          else if c = CHR ''+'' then map_option int (parse_nat (dropWhile is_space cs))
          else map_option int (parse_nat (c # cs)))"

text \<open>\<^verbatim>\<open>s.lower()\<close> on ASCII.\<close>

definition lower_char :: "char \<Rightarrow> char" where
  "lower_char c =
     (let k = (of_char c :: nat) in if 65 \<le> k \<and> k \<le> 90 then char_of (k + 32) else c)"

definition lower :: "string \<Rightarrow> string" where
  "lower s = map lower_char s"

text \<open>\<^verbatim>\<open>a in b\<close> on two strings: \<open>a\<close> occurs in \<open>b\<close> as a contiguous substring.\<close>

definition str_in :: "string \<Rightarrow> string \<Rightarrow> bool" where
  "str_in a b = sublist a b"

subsection \<open>Address arithmetic\<close>

text \<open>
  An IPv4 address is its 32-bit value. The source keeps addresses as dotted-quad strings and
  compares the strings; \<^verbatim>\<open>net_addr\<close> returns netaddr's canonical rendering, so on
  canonically written addresses string equality is equality of the values. \<open>ip_str\<close> is
  that rendering.
\<close>

type_synonym ipv4 = "32 word"

definition octet :: "ipv4 \<Rightarrow> nat \<Rightarrow> nat" where
  "octet a k = (unat a div 256 ^ k) mod 256"

definition ip_str :: "ipv4 \<Rightarrow> string" where
  "ip_str a = dec (octet a 3) @ ''.'' @ dec (octet a 2) @ ''.'' @ dec (octet a 1) @ ''.'' @ dec (octet a 0)"

text \<open>
  \<^verbatim>\<open>net_addr(a, n)\<close> is \<^verbatim>\<open>str(IPNetwork('%s/%d' % (a, n)).network)\<close>. The netaddr library
  is not part of the repository; its \<^verbatim>\<open>network\<close> is the address value ANDed with
  \<^verbatim>\<open>max_int ^ hostmask\<close>, where \<^verbatim>\<open>hostmask = (1 << (32 - n)) - 1\<close>. netaddr rejects a
  prefix length above 32 (\<^verbatim>\<open>AddrFormatError\<close>); that check is made where a Network
  object is built (\<open>Network_init\<close>), the only place where such a length can arrive.
\<close>

definition net_addr :: "ipv4 \<Rightarrow> nat \<Rightarrow> ipv4" where
  "net_addr a n = a AND (0xFFFFFFFF XOR (push_bit (32 - n) 1 - 1))"

text \<open>
  The wording of the specification, "an address masked by a prefix length": the top \<open>n\<close>
  bits are kept and the remaining \<open>32 - n\<close> bits are cleared.
\<close>

definition masked_by_prefix :: "ipv4 \<Rightarrow> nat \<Rightarrow> ipv4" where
  "masked_by_prefix a n = push_bit (32 - n) (drop_bit (32 - n) a)"

subsection \<open>Network objects\<close>

text \<open>
  \<^verbatim>\<open>Host(r)\<close> keeps the eight fields of a row of the hosts table. The flags
  \<^verbatim>\<open>local_fw\<close>, \<^verbatim>\<open>network_fw\<close> and \<^verbatim>\<open>mng\<close> stay the strings read from the file;
  \<^verbatim>\<open>masklen\<close> is the number the source obtains with \<^verbatim>\<open>int(masklen)\<close>.
\<close>

record Host =
  hostname :: string
  iface :: string
  ip_addr :: ipv4
  masklen :: nat
  local_fw :: string
  network_fw :: string
  mng :: string
  routed :: "string list"

record Network =
  name :: string
  ip_addr :: ipv4
  masklen :: nat

text \<open>An endpoint object is a Host or a Network; Python's \<^verbatim>\<open>None\<close> is \<open>None\<close>.\<close>

datatype endpoint = EHost Host | ENet Network

text \<open>\<^verbatim>\<open>Network.__init__\<close> with \<^verbatim>\<open>Network.update\<close>: the address is made canonical.\<close>

definition Network_init :: "string \<Rightarrow> ipv4 \<Rightarrow> nat \<Rightarrow> error + Network" where
  "Network_init nm addr ml =
     (if ml > 32 then Inl AddrFormatError
      else Inr \<lparr>Network.name = nm, ip_addr = net_addr addr ml, masklen = ml\<rparr>)"

text \<open>\<^verbatim>\<open>Host.ipt\<close>, \<^verbatim>\<open>Network.ipt\<close>: the rendering for iptables.\<close>

fun ipt :: "endpoint \<Rightarrow> string" where
  "ipt (EHost h) = ip_str (Host.ip_addr h)"
| "ipt (ENet n) = ip_str (Network.ip_addr n) @ ''/'' @ dec (Network.masklen n)"

text \<open>
  \<^verbatim>\<open>Host.__contains__\<close> on a Host argument (the compiler calls it on no other).
\<close>

definition Host_contains :: "Host \<Rightarrow> Host \<Rightarrow> bool" where
  "Host_contains self other = (Host.ip_addr other = Host.ip_addr self)"

text \<open>\<^verbatim>\<open>Host.mynetwork\<close>: the unnamed network directly connected to the host.\<close>

definition mynetwork :: "Host \<Rightarrow> error + Network" where
  "mynetwork self = Network_init [] (Host.ip_addr self) (Host.masklen self)"

text \<open>
  \<^verbatim>\<open>Network.__contains__\<close>. On an argument that is neither a Host nor a Network the method
  falls off its end and returns \<^verbatim>\<open>None\<close>, which \<^verbatim>\<open>in\<close> reads as false.
\<close>

fun Network_contains :: "Network \<Rightarrow> endpoint option \<Rightarrow> bool" where
  "Network_contains self (Some (EHost other)) =
     (net_addr (Host.ip_addr other) (Network.masklen self) = Network.ip_addr self)"
| "Network_contains self (Some (ENet other)) =
     (let addr_ok = (net_addr (Network.ip_addr other) (Network.masklen self) = Network.ip_addr self);
          net_ok = (Network.masklen other \<ge> Network.masklen self)
      in addr_ok \<and> net_ok)"
| "Network_contains self None = False"

subsection \<open>Host groups\<close>

record HostGroup =
  name :: string
  childs :: "string list"

text \<open>
  \<^verbatim>\<open>HostGroup._flatten(self, i)\<close>: \<open>i\<close> is the host group object itself (it has the
  attribute \<^verbatim>\<open>childs\<close>) or a name; a name that is a key of \<^verbatim>\<open>self._hbn\<close> is a host
  group and is replaced by its flattened children, any other name is a leaf. The source holds
  no visited set: the recursion ends only at leaves. Python stops a recursion that grows
  beyond the interpreter's recursion limit with a \<^verbatim>\<open>RuntimeError\<close>; the first argument
  is the number of nested calls that still fit.
\<close>

datatype hg_item = HgObject HostGroup | HgName string

fun HostGroup_flatten :: "nat \<Rightarrow> (string \<rightharpoonup> string list) \<Rightarrow> hg_item \<Rightarrow> error + string list" where
  "HostGroup_flatten 0 hbn i = Inl RuntimeError"
| "HostGroup_flatten (Suc d) hbn (HgObject g) =
     bind_err (mapM_err (\<lambda>c. HostGroup_flatten d hbn (HgName c)) (HostGroup.childs g))
       (\<lambda>leaves. Inr (concat leaves))"
| "HostGroup_flatten (Suc d) hbn (HgName i) =
     (case hbn i of
        Some cs \<Rightarrow>
          bind_err (mapM_err (\<lambda>c. HostGroup_flatten d hbn (HgName c)) cs)
            (\<lambda>leaves. Inr (concat leaves))
      | None \<Rightarrow> Inr [i])"

text \<open>The local function \<^verbatim>\<open>res\<close> of \<^verbatim>\<open>HostGroup.flat\<close>.\<close>

definition flat_res :: "(string \<rightharpoonup> Host) \<Rightarrow> (string \<rightharpoonup> Network) \<Rightarrow> string \<Rightarrow> error + endpoint" where
  "flat_res host_by_name net_by_name o' =
     (case host_by_name o' of
        Some h \<Rightarrow> Inr (EHost h)
      | None \<Rightarrow> (case net_by_name o' of Some n \<Rightarrow> Inr (ENet n) | None \<Rightarrow> Inl PyException))"

text \<open>\<^verbatim>\<open>HostGroup.flat\<close>: flatten, then resolve every leaf name to a Host or a Network.\<close>

definition flat ::
  "nat \<Rightarrow> HostGroup \<Rightarrow> (string \<rightharpoonup> Host) \<Rightarrow> (string \<rightharpoonup> Network) \<Rightarrow> (string \<rightharpoonup> string list)
     \<Rightarrow> error + endpoint list" where
  "flat limit self host_by_name net_by_name hg_by_name =
     bind_err (HostGroup_flatten limit hg_by_name (HgObject self))
       (\<lambda>li. mapM_err (flat_res host_by_name net_by_name) li)"

text \<open>The edges of the host-group graph: from a group name to each of its children.\<close>

definition hg_edges :: "(string \<rightharpoonup> string list) \<Rightarrow> (string \<times> string) set" where
  "hg_edges hbn = {(x, y). \<exists>cs. hbn x = Some cs \<and> y \<in> set cs}"

subsection \<open>The rule table\<close>

record Rule =
  enabled :: string
  name :: string
  src :: string
  src_serv :: string
  dst :: string
  dst_serv :: string
  action :: string
  log_level :: string
  desc :: string

text \<open>
  The \<^verbatim>\<open>Rules\<close> table: \<open>rules_list\<close> is \<^verbatim>\<open>self._list\<close>, \<open>rules_csv\<close> the rows of
  \<^verbatim>\<open>rules.csv\<close> as last written by \<^verbatim>\<open>save\<close>.
\<close>

record Rules =
  rules_list :: "Rule list"
  rules_csv :: "Rule list"

text \<open>\<^verbatim>\<open>Rules.save\<close>; writing the file is taken to succeed.\<close>

definition Rules_save :: "Rules \<Rightarrow> Rules" where
  "Rules_save self = self\<lparr>rules_csv := rules_list self\<rparr>"

text \<open>
  Python list indexing: a negative index counts from the end, an index outside
  \<open>-len .. len - 1\<close> raises \<^verbatim>\<open>IndexError\<close>.
\<close>

definition py_index :: "'a list \<Rightarrow> int \<Rightarrow> error + nat" where
  "py_index xs i =
     (if 0 \<le> i \<and> i < int (length xs) then Inr (nat i)
      else if i < 0 \<and> - int (length xs) \<le> i then Inr (nat (int (length xs) + i))
      else Inl IndexError)"

definition py_getitem :: "'a list \<Rightarrow> int \<Rightarrow> error + 'a" where
  "py_getitem xs i = bind_err (py_index xs i) (\<lambda>j. Inr (xs ! j))"

definition py_setitem :: "'a list \<Rightarrow> int \<Rightarrow> 'a \<Rightarrow> error + 'a list" where
  "py_setitem xs i v = bind_err (py_index xs i) (\<lambda>j. Inr (xs[j := v]))"

text \<open>
  \<^verbatim>\<open>rules[a], rules[b] = rules[b], rules[a]\<close>: the right-hand side is read first, left to
  right, then the two targets are assigned, left to right. Both reads come before the first
  write, so an \<^verbatim>\<open>IndexError\<close> leaves the list as it was.
\<close>

definition swap_assign :: "'a list \<Rightarrow> int \<Rightarrow> int \<Rightarrow> error + 'a list" where
  "swap_assign rules a b =
     bind_err (py_getitem rules b) (\<lambda>x.
     bind_err (py_getitem rules a) (\<lambda>y.
     bind_err (py_setitem rules a x) (\<lambda>rules'.
     py_setitem rules' b y)))"

text \<open>
  \<^verbatim>\<open>Rules.moveup\<close> and \<^verbatim>\<open>Rules.movedown\<close>. The body runs inside
  \<^verbatim>\<open>try: ... except Exception\<close>, whose handler only logs (\<^verbatim>\<open>moveup\<close>) or passes
  (\<^verbatim>\<open>movedown\<close>): no exception leaves the method.
\<close>

definition moveup :: "Rules \<Rightarrow> int \<Rightarrow> error + Rules" where
  "moveup self rid =
     (case swap_assign (rules_list self) rid (rid - 1) of
        Inl e \<Rightarrow> Inr self
      | Inr rules \<Rightarrow> Inr (Rules_save (self\<lparr>rules_list := rules\<rparr>)))"

definition movedown :: "Rules \<Rightarrow> int \<Rightarrow> error + Rules" where
  "movedown self rid =
     (case swap_assign (rules_list self) rid (rid + 1) of
        Inl e \<Rightarrow> Inr self
      | Inr rules \<Rightarrow> Inr (Rules_save (self\<lparr>rules_list := rules\<rparr>)))"

subsection \<open>Services and the model\<close>

record Service =
  name :: string
  proto :: string
  ports :: string

text \<open>
  A \<^verbatim>\<open>GitFireSet\<close>: the five tables, and \<open>git_status\<close>, the standard output of
  \<^verbatim>\<open>git status\<close> in the repository directory.
\<close>

record FireSet =
  rules :: "Rule list"
  hosts :: "Host list"
  hostgroups :: "HostGroup list"
  services :: "Service list"
  networks :: "Network list"
  git_status :: string

text \<open>\<^verbatim>\<open>GitFireSet.save_needed\<close>.\<close>

definition save_needed :: "FireSet \<Rightarrow> error + bool" where
  "save_needed self =
     (let o' = git_status self in
      if str_in ''nothing to commit '' o' then Inr False
      else if str_in ''# On branch master'' o' then Inr True
      else Inl (Alert ''Git status output''))"

definition protocols :: "string list" where
  "protocols = [''IP'', ''TCP'', ''UDP'', ''OSPF'', ''IS-IS'', ''SCTP'', ''AH'', ''ESP'']"

definition validc :: "char \<Rightarrow> bool" where
  "validc c =
     (let n = (of_char c :: nat) in 31 < n \<and> n < 127 \<and> n \<notin> {34, 39, 60, 62, 96})"

subsection \<open>The rule compiler: expansion\<close>

text \<open>
  One entry of the list \<^verbatim>\<open>compiled\<close>:
  \<^verbatim>\<open>(proto, src, sports, dst, dports, log_val, rule.name, rule.action)\<close>.
\<close>

record Compiled =
  proto :: string
  src :: "endpoint option"
  sports :: string
  dst :: "endpoint option"
  dports :: string
  log_val :: int
  name :: string
  action :: string

text \<open>The dictionaries built at the start of \<^verbatim>\<open>compile_rules\<close>.\<close>

definition net_dict :: "FireSet \<Rightarrow> (string \<rightharpoonup> ipv4 \<times> nat)" where
  "net_dict self = py_dict (map (\<lambda>n. (Network.name n, (Network.ip_addr n, Network.masklen n))) (networks self))"

definition proto_port_dict :: "FireSet \<Rightarrow> (string \<rightharpoonup> string option \<times> string)" where
  "proto_port_dict self =
     (py_dict (map (\<lambda>sr. (Service.name sr, (Some (Service.proto sr), Service.ports sr))) (services self)))
       (''*'' \<mapsto> (None, []))"

definition host_by_name_col_iface :: "FireSet \<Rightarrow> (string \<rightharpoonup> Host)" where
  "host_by_name_col_iface self = py_dict (map (\<lambda>h. (hostname h @ '':'' @ iface h, h)) (hosts self))"

definition net_by_name :: "FireSet \<Rightarrow> (string \<rightharpoonup> Network)" where
  "net_by_name self = py_dict (map (\<lambda>n. (Network.name n, n)) (networks self))"

definition hg_by_name :: "HostGroup list \<Rightarrow> (string \<rightharpoonup> string list)" where
  "hg_by_name hgs = py_dict (map (\<lambda>hg. (HostGroup.name hg, HostGroup.childs hg)) hgs)"

definition flat_hg_dict :: "nat \<Rightarrow> FireSet \<Rightarrow> error + (string \<rightharpoonup> endpoint list)" where
  "flat_hg_dict limit self =
     bind_err
       (mapM_err
          (\<lambda>hg. bind_err
             (flat limit hg (host_by_name_col_iface self) (net_by_name self) (hg_by_name (hostgroups self)))
             (\<lambda>l. Inr (HostGroup.name hg, l)))
          (hostgroups self))
       (\<lambda>kvs. Inr (py_dict kvs))"

text \<open>The local function \<^verbatim>\<open>res\<close> of \<^verbatim>\<open>compile_rules\<close>; \<^verbatim>\<open>'*'\<close> gives \<^verbatim>\<open>[None]\<close>.\<close>

definition res :: "FireSet \<Rightarrow> (string \<rightharpoonup> endpoint list) \<Rightarrow> string \<Rightarrow> error + endpoint option list" where
  "res self flat_hg n =
     (case host_by_name_col_iface self n of
        Some h \<Rightarrow> Inr [Some (EHost h)]
      | None \<Rightarrow>
     (case net_by_name self n of
        Some nw \<Rightarrow> Inr [Some (ENet nw)]
      | None \<Rightarrow>
     (case flat_hg n of
        Some l \<Rightarrow> Inr (map Some l)
      | None \<Rightarrow>
     (if n = ''*'' then Inr [None] else Inl (Alert ''Item is not defined'')))))"

definition lookup :: "('k \<rightharpoonup> 'v) \<Rightarrow> 'k \<Rightarrow> error + 'v" where
  "lookup d k = (case d k of None \<Rightarrow> Inl KeyError | Some v \<Rightarrow> Inr v)"

text \<open>A string, or \<^verbatim>\<open>None\<close>, read as a condition: true unless \<^verbatim>\<open>None\<close> or empty.\<close>

definition truthy :: "string option \<Rightarrow> bool" where
  "truthy x = (case x of None \<Rightarrow> False | Some s \<Rightarrow> s \<noteq> [])"

definition proto_ok :: "string option \<Rightarrow> bool" where
  "proto_ok p = (case p of None \<Rightarrow> True | Some s \<Rightarrow> s \<in> set protocols)"

definition proto_str :: "string option \<Rightarrow> string option \<Rightarrow> string" where
  "proto_str sproto dproto =
     (case (if truthy dproto then dproto else if truthy sproto then sproto else None) of
        Some p \<Rightarrow> '' -p '' @ lower p
      | None \<Rightarrow> [])"

text \<open>
  \<^verbatim>\<open>if ports: ports = "%s --sport %s" % (' -m multiport' if ',' in ports else '', ports)\<close>,
  and the same with \<^verbatim>\<open>--dport\<close>.
\<close>

definition ports_str :: "string \<Rightarrow> string \<Rightarrow> string" where
  "ports_str flag p =
     (if p = [] then []
      else (if CHR '','' \<in> set p then '' -m multiport'' else []) @ '' '' @ flag @ '' '' @ p)"

text \<open>
  The body of the loop over the rules. A character of the rule name that fails
  \<^verbatim>\<open>validc\<close> ends in a \<^verbatim>\<open>TypeError\<close>: the message of that \<^verbatim>\<open>assert\<close> formats two
  values into one \<^verbatim>\<open>%s\<close>.
\<close>

definition expand_rule :: "FireSet \<Rightarrow> (string \<rightharpoonup> endpoint list) \<Rightarrow> Rule \<Rightarrow> error + Compiled list" where
  "expand_rule self flat_hg rule =
     (if Rule.enabled rule = ''0'' then Inr []
      else if Rule.action rule \<notin> {''ACCEPT'', ''DROP''}
        then Inl (AssertionError ''The Action field must be ACCEPT or DROP'')
      else
        bind_err (res self flat_hg (Rule.src rule)) (\<lambda>srcs.
        bind_err (res self flat_hg (Rule.dst rule)) (\<lambda>dsts.
        bind_err (lookup (proto_port_dict self) (Rule.src_serv rule)) (\<lambda>(sproto, sports').
        bind_err (lookup (proto_port_dict self) (Rule.dst_serv rule)) (\<lambda>(dproto, dports').
          if \<not> proto_ok sproto then Inl (AssertionError ''Unknown source protocol'')
          else if \<not> proto_ok dproto then Inl (AssertionError ''Unknown dest protocol'')
          else if truthy sproto \<and> truthy dproto \<and> sproto \<noteq> dproto
            then Inl (Alert ''Source and destination protocol must be the same'')
          else if \<not> list_all validc (Rule.name rule) then Inl TypeError
          else
            (case py_int (Rule.log_level rule) of
               None \<Rightarrow> Inl (Alert ''The logging field must be an integer'')
             | Some lv \<Rightarrow>
                 Inr (map (\<lambda>(s, d).
                        \<lparr>Compiled.proto = proto_str sproto dproto, src = s,
                         sports = ports_str ''--sport'' sports', dst = d,
                         dports = ports_str ''--dport'' dports', log_val = lv,
                         name = Rule.name rule, action = Rule.action rule\<rparr>)
                      (List.product srcs dsts))))))))"

definition compile_list :: "nat \<Rightarrow> FireSet \<Rightarrow> error + Compiled list" where
  "compile_list limit self =
     bind_err (flat_hg_dict limit self) (\<lambda>flat_hg.
     bind_err (mapM_err (expand_rule self flat_hg) (rules self)) (\<lambda>ls. Inr (concat ls)))"

subsection \<open>The rule compiler: forwarding\<close>

text \<open>
  \<^verbatim>\<open>compile_rules\<close> hands \<^verbatim>\<open>_oo_forwarded\<close> the routed networks as
  \<^verbatim>\<open>[net[r] for r in h.routed]\<close>, and \<^verbatim>\<open>net\<close> maps a network name to the tuple
  \<^verbatim>\<open>(n.ip_addr, n.masklen)\<close> of a string and an integer. So \<^verbatim>\<open>src in rnet\<close> is
  membership in a tuple: \<^verbatim>\<open>src\<close> is compared with each component by \<^verbatim>\<open>==\<close>.
  \<^verbatim>\<open>NetworkObj\<close> defines no \<^verbatim>\<open>__eq__\<close>, so an object is equal to no string and no
  integer, and neither is \<^verbatim>\<open>None\<close>.
\<close>

datatype pyval = PyNone | PyStr string | PyInt int | PyObj endpoint

datatype atom = AStr string | AInt int

fun py_eq_atom :: "pyval \<Rightarrow> atom \<Rightarrow> bool" where
  "py_eq_atom (PyStr a) (AStr b) = (a = b)"
| "py_eq_atom (PyInt i) (AInt j) = (i = j)"
| "py_eq_atom _ _ = False"

definition to_pyval :: "endpoint option \<Rightarrow> pyval" where
  "to_pyval x = (case x of None \<Rightarrow> PyNone | Some e \<Rightarrow> PyObj e)"

definition tuple_in :: "endpoint option \<Rightarrow> ipv4 \<times> nat \<Rightarrow> bool" where
  "tuple_in x rnet =
     (py_eq_atom (to_pyval x) (AStr (ip_str (fst rnet))) \<or>
      py_eq_atom (to_pyval x) (AInt (int (snd rnet))))"

fun routed_loop :: "endpoint option \<Rightarrow> endpoint option \<Rightarrow> (ipv4 \<times> nat) list \<Rightarrow> bool" where
  "routed_loop src' dst' [] = False"
| "routed_loop src' dst' (rnet # routed_nets) =
     (if tuple_in src' rnet \<and> \<not> tuple_in dst' rnet then True
      else routed_loop src' dst' routed_nets)"

definition endpoint_ip :: "endpoint \<Rightarrow> ipv4" where
  "endpoint_ip e = (case e of EHost h \<Rightarrow> Host.ip_addr h | ENet n \<Rightarrow> Network.ip_addr n)"

text \<open>
  \<^verbatim>\<open>FireSet._oo_forwarded(src, dst, me, routed_nets, other_ifaces)\<close>; the last parameter
  is not used by the body. An endpoint object is true as a condition (its \<^verbatim>\<open>__len__\<close>
  counts its attributes), so \<^verbatim>\<open>not src\<close> holds for \<^verbatim>\<open>None\<close> only.
\<close>

definition oo_forwarded ::
  "endpoint option \<Rightarrow> endpoint option \<Rightarrow> Host \<Rightarrow> (ipv4 \<times> nat) list \<Rightarrow> error + bool" where
  "oo_forwarded src' dst' me routed_nets =
     (case src' of
        None \<Rightarrow> Inr True
      | Some s \<Rightarrow>
          if Host.ip_addr me = endpoint_ip s then Inr False
          else
            bind_err (mynetwork me) (\<lambda>mynet.
              if Network_contains mynet src' then
                bind_err (mynetwork me) (\<lambda>mynet'.
                  if Network_contains mynet' dst' then Inr False else Inr True)
              else Inr (routed_loop src' dst' routed_nets)))"

subsection \<open>The rule compiler: splicing\<close>

text \<open>The value of \<^verbatim>\<open>rd[hostname]\<close>: the three chains of a host.\<close>

record chains =
  INPUT :: "string list"
  OUTPUT :: "string list"
  FORWARD :: "string list"

type_synonym ruledict = "string \<rightharpoonup> chains"

definition stateful :: string where
  "stateful = ''-m state --state RELATED,ESTABLISHED -j ACCEPT''"

text \<open>The first rules, inserted when the hostname is not yet a key of \<^verbatim>\<open>rd\<close>.\<close>

definition first_rules :: "Host \<Rightarrow> chains" where
  "first_rules h =
     \<lparr>INPUT = [stateful], OUTPUT = [stateful],
      FORWARD = (if network_fw h = ''1'' then [stateful] else [''-j DROP''])\<rparr>"

definition src_str :: "Compiled \<Rightarrow> string" where
  "src_str t = (case Compiled.src t of None \<Rightarrow> [] | Some s \<Rightarrow> '' -s '' @ ipt s)"

definition dst_str :: "Compiled \<Rightarrow> string" where
  "dst_str t = (case Compiled.dst t of None \<Rightarrow> [] | Some d \<Rightarrow> '' -d '' @ ipt d)"

definition matcher :: "Compiled \<Rightarrow> string" where
  "matcher t = Compiled.proto t @ src_str t @ Compiled.sports t @ dst_str t @ Compiled.dports t"

definition action_line :: "Compiled \<Rightarrow> string" where
  "action_line t = matcher t @ '' -j '' @ Compiled.action t"

definition log_line :: "Compiled \<Rightarrow> string" where
  "log_line t =
     matcher t @ '' -j LOG --log-level '' @ str_int (Compiled.log_val t) @ '' --log-prefix '' @ Compiled.name t"

definition input_log_line :: "Host \<Rightarrow> Compiled \<Rightarrow> string" where
  "input_log_line h t = ''-i '' @ iface h @ '' '' @ log_line t"

text \<open>\<^verbatim>\<open>if src and dst and src.ipt() == dst.ipt(): continue\<close>\<close>

definition skip_pair :: "endpoint option \<Rightarrow> endpoint option \<Rightarrow> bool" where
  "skip_pair s d =
     (case s of None \<Rightarrow> False
      | Some s' \<Rightarrow> (case d of None \<Rightarrow> False | Some d' \<Rightarrow> ipt s' = ipt d'))"

text \<open>\<^verbatim>\<open>x and h in x or not x\<close>, where \<^verbatim>\<open>h in x\<close> calls \<^verbatim>\<open>x.__contains__(h)\<close>.\<close>

definition host_in :: "Host \<Rightarrow> endpoint option \<Rightarrow> bool" where
  "host_in h x =
     (case x of
        None \<Rightarrow> True
      | Some (EHost x') \<Rightarrow> Host_contains x' h
      | Some (ENet x') \<Rightarrow> Network_contains x' (Some (EHost h)))"

definition input_lines :: "Compiled \<Rightarrow> Host \<Rightarrow> string list" where
  "input_lines t h =
     (if host_in h (Compiled.dst t)
      then (if Compiled.log_val t \<noteq> 0 then [input_log_line h t] else []) @ [action_line t]
      else [])"

definition output_lines :: "Compiled \<Rightarrow> Host \<Rightarrow> string list" where
  "output_lines t h =
     (if host_in h (Compiled.src t)
      then (if Compiled.log_val t \<noteq> 0 then [log_line t] else []) @ [action_line t]
      else [])"

text \<open>
  The body of the loop over the hosts, for one compiled entry. \<^verbatim>\<open>h.network_fw\<close> is a
  string, so \<^verbatim>\<open>h.network_fw in ('0', 0, False)\<close> holds for \<^verbatim>\<open>'0'\<close> only. The lists
  \<^verbatim>\<open>nets\<close> and \<^verbatim>\<open>other_ifaces\<close> are computed and not used.
\<close>

definition splice_host :: "(string \<rightharpoonup> ipv4 \<times> nat) \<Rightarrow> Compiled \<Rightarrow> ruledict \<Rightarrow> Host \<Rightarrow> error + ruledict" where
  "splice_host net t rd h =
     (let c0 = (case rd (hostname h) of None \<Rightarrow> first_rules h | Some c \<Rightarrow> c) in
      if skip_pair (Compiled.src t) (Compiled.dst t) then Inr (rd(hostname h \<mapsto> c0))
      else
        let c1 = c0\<lparr>INPUT := INPUT c0 @ input_lines t h\<rparr>;
            c2 = c1\<lparr>OUTPUT := OUTPUT c1 @ output_lines t h\<rparr>
        in
          if network_fw h = ''0'' then Inr (rd(hostname h \<mapsto> c2))
          else
            bind_err (mapM_err (lookup net) (routed h)) (\<lambda>resolved_routed.
            bind_err (oo_forwarded (Compiled.src t) (Compiled.dst t) h resolved_routed) (\<lambda>forw.
              Inr (rd(hostname h \<mapsto>
                (if forw then c2\<lparr>FORWARD := FORWARD c2 @ [log_line t, action_line t]\<rparr> else c2))))))"

definition splice :: "FireSet \<Rightarrow> Compiled list \<Rightarrow> error + ruledict" where
  "splice self compiled =
     foldM_err (\<lambda>rd t. foldM_err (splice_host (net_dict self) t) rd (hosts self)) Map.empty compiled"

text \<open>\<^verbatim>\<open>FireSet.compile_rules\<close>, and \<^verbatim>\<open>FireSet.compile\<close>, which only calls it.\<close>

definition compile_rules :: "nat \<Rightarrow> FireSet \<Rightarrow> error + ruledict" where
  "compile_rules limit self =
     bind_err (save_needed self) (\<lambda>unsaved.
       if unsaved then Inl (AssertionError ''Configuration must be saved before deployment.'')
       else if \<not> list_all (\<lambda>rule. Rule.enabled rule \<in> {''1'', ''0''}) (rules self)
         then Inl (AssertionError ''First field must be 1 or 0'')
       else bind_err (compile_list limit self) (\<lambda>compiled. splice self compiled))"

definition compile :: "nat \<Rightarrow> FireSet \<Rightarrow> error + ruledict" where
  "compile limit self = compile_rules limit self"

subsection \<open>The per-interface grouping\<close>

text \<open>
  \<^verbatim>\<open>compile_dict\<close> iterates over \<^verbatim>\<open>hosts\<close> and unpacks each item into eight names.
  An item of \<^verbatim>\<open>self.hosts\<close> is a Host object, which is not iterable; an item handed in
  by a caller may be a row of eight fields.
\<close>

datatype host_item =
    HostObj Host
  | HostRow string string string string string string string "string list"

type_synonym ifacedict = "string \<rightharpoonup> (string \<rightharpoonup> string list)"

definition compile_dict_step :: "string list \<Rightarrow> ifacedict \<Rightarrow> host_item \<Rightarrow> error + ifacedict" where
  "compile_dict_step rset rd item =
     (case item of
        HostObj h \<Rightarrow> Inl TypeError
      | HostRow hostname' iface' ipa masklen' locfw netfw mng' routed' \<Rightarrow>
          (let myrules = filter (\<lambda>r. str_in ipa r) rset;
               ifs = (case rd hostname' of None \<Rightarrow> Map.empty | Some d \<Rightarrow> d);
               old = (case ifs iface' of None \<Rightarrow> [] | Some l \<Rightarrow> l)
           in Inr (rd(hostname' \<mapsto> ifs(iface' \<mapsto> old @ myrules)))))"

text \<open>
  \<^verbatim>\<open>FireSet.compile_dict(hosts=None, rset=None)\<close>. An absent or empty argument is replaced
  (\<^verbatim>\<open>if not hosts\<close>, \<^verbatim>\<open>if not rset\<close>). \<^verbatim>\<open>for r in rset\<close> over the dictionary that
  \<^verbatim>\<open>compile\<close> returns runs over its keys, the hostnames, in the order of the dictionary,
  which is the parameter \<open>keys\<close>.
\<close>

definition compile_dict ::
  "(ruledict \<Rightarrow> string list) \<Rightarrow> nat \<Rightarrow> FireSet \<Rightarrow> host_item list option \<Rightarrow> string list option
     \<Rightarrow> error + ifacedict" where
  "compile_dict keys limit self hosts_arg rset_arg =
     bind_err (save_needed self) (\<lambda>unsaved.
       if unsaved then Inl (AssertionError ''Configuration must be saved before deployment.'')
       else
         let hosts' = (case hosts_arg of
                         None \<Rightarrow> map HostObj (hosts self)
                       | Some [] \<Rightarrow> map HostObj (hosts self)
                       | Some (x # xs) \<Rightarrow> x # xs)
         in
           bind_err (case rset_arg of
                       None \<Rightarrow> bind_err (compile limit self) (\<lambda>rd. Inr (keys rd))
                     | Some [] \<Rightarrow> bind_err (compile limit self) (\<lambda>rd. Inr (keys rd))
                     | Some (r # rs) \<Rightarrow> Inr (r # rs))
             (\<lambda>rset. foldM_err (compile_dict_step rset) Map.empty hosts'))"

subsection \<open>Deployment\<close>

text \<open>
  The class \<^verbatim>\<open>SSHConnector\<close> (module \<^verbatim>\<open>flssh\<close>) is not part of the source at hand. Its
  three methods are parameters: what \<^verbatim>\<open>get_confs\<close> returns for a dictionary of management
  addresses, and whether \<^verbatim>\<open>deliver_confs\<close> and \<^verbatim>\<open>apply_remote_confs\<close> succeed. Every
  call of one of them is recorded in \<open>fleet_log\<close>: it is a contact with the hosts.
\<close>

record remote_conf =
  iptables :: "string list"
  ip_a_s :: "string \<rightharpoonup> string \<times> string option"

type_synonym confs = "string \<rightharpoonup> remote_conf"

record fleet =
  ssh_get_confs :: "(string \<times> string list) list \<Rightarrow> error + confs"
  ssh_deliver_confs :: "ifacedict \<Rightarrow> error + unit"
  ssh_apply_remote_confs :: "error + unit"

datatype fleet_event =
    GetConfs "(string \<times> string list) list"
  | DeliverConfs ifacedict
  | ApplyRemoteConfs

record DeployState =
  fireset :: FireSet
  remote_confs :: "confs option"
  rd_attr :: "ifacedict option"
  fleet_log :: "fleet_event list"

text \<open>
  \<^verbatim>\<open>FireSet._get_confs\<close>. With a host in the table, the first pass of the loop reads
  the local variable \<^verbatim>\<open>n\<close> before it is assigned. With no host, \<^verbatim>\<open>d\<close> stays empty and the
  connector is asked; the result is a dictionary keyed by hostnames (so
  \<^verbatim>\<open>_check_ifaces\<close> reads it), which has no key \<^verbatim>\<open>0\<close>.
\<close>

definition get_confs :: "fleet \<Rightarrow> DeployState \<Rightarrow> (error + unit) \<times> DeployState" where
  "get_confs fl s =
     (let s1 = s\<lparr>remote_confs := None\<rparr> in
      if hosts (fireset s) \<noteq> [] then (Inl UnboundLocalError, s1)
      else
        let s2 = s1\<lparr>fleet_log := fleet_log s1 @ [GetConfs []]\<rparr> in
        (case ssh_get_confs fl [] of
           Inl e \<Rightarrow> (Inl e, s2)
         | Inr c \<Rightarrow> (Inl KeyError, s2\<lparr>remote_confs := Some c\<rparr>)))"

text \<open>
  \<^verbatim>\<open>FireSet._check_ifaces\<close>. The messages of its second and third \<^verbatim>\<open>raise\<close> name the
  undefined \<^verbatim>\<open>iface\<close>, so they end in a \<^verbatim>\<open>NameError\<close>.
\<close>

definition check_ifaces :: "DeployState \<Rightarrow> error + unit" where
  "check_ifaces s =
     (case remote_confs s of
        None \<Rightarrow> Inl (AssertionError [])
      | Some c \<Rightarrow>
          foldM_err
            (\<lambda>_ h.
               case c (hostname h) of
                 None \<Rightarrow> Inl (Alert ''Host not available.'')
               | Some q \<Rightarrow>
                   (case ip_a_s q (iface h) of
                      None \<Rightarrow> Inl NameError
                    | Some (ip_addr_v4, ip_addr_v6) \<Rightarrow>
                        if Some (ip_str (Host.ip_addr h)) = ip_addr_v6
                           \<or> ip_str (Host.ip_addr h) = takeWhile (\<lambda>ch. ch \<noteq> CHR ''/'') ip_addr_v4
                        then Inr ()
                        else Inl NameError))
            () (hosts (fireset s)))"

text \<open>\<^verbatim>\<open>FireSet.deploy\<close>. An exception leaves the object as it is at that moment.\<close>

definition deploy ::
  "fleet \<Rightarrow> (ruledict \<Rightarrow> string list) \<Rightarrow> nat \<Rightarrow> DeployState \<Rightarrow> (error + unit) \<times> DeployState" where
  "deploy fl keys limit s =
     (case save_needed (fireset s) of
        Inl e \<Rightarrow> (Inl e, s)
      | Inr unsaved \<Rightarrow>
          if unsaved then (Inl (AssertionError ''Configuration must be saved before deployment.''), s)
          else
            (case compile limit (fireset s) of
               Inl e \<Rightarrow> (Inl e, s)
             | Inr comp_rules \<Rightarrow>
                 (case get_confs fl s of
                    (Inl e, s1) \<Rightarrow> (Inl e, s1)
                  | (Inr sx, s1) \<Rightarrow>
                      (case check_ifaces s1 of
                         Inl e \<Rightarrow> (Inl e, s1)
                       | Inr _ \<Rightarrow>
                           (case compile_dict keys limit (fireset s1) None None of
                              Inl e \<Rightarrow> (Inl e, s1)
                            | Inr rd \<Rightarrow>
                                (let s2 = s1\<lparr>rd_attr := Some rd,
                                             fleet_log := fleet_log s1 @ [DeliverConfs rd]\<rparr> in
                                 case ssh_deliver_confs fl rd of
                                   Inl e \<Rightarrow> (Inl e, s2)
                                 | Inr _ \<Rightarrow>
                                     (ssh_apply_remote_confs fl,
                                      s2\<lparr>fleet_log := fleet_log s2 @ [ApplyRemoteConfs]\<rparr>)))))))"

subsection \<open>A small fleet, used to run the definitions\<close>

text \<open>
  A firewall \<open>fw\<close> with two interfaces (10.0.0.1/24 on eth0, 10.0.1.1/24 on eth1) that
  routes the network \<open>dmz\<close> (10.0.2.0/24), and two hosts \<open>a\<close> (10.0.0.5) and \<open>b\<close>
  (10.0.1.7) that are no network firewalls.
\<close>

definition ex_fw0 :: Host where
  "ex_fw0 = \<lparr>hostname = ''fw'', iface = ''eth0'', ip_addr = 0x0A000001, masklen = 24,
             local_fw = ''1'', network_fw = ''1'', mng = ''1'', routed = [''dmz'']\<rparr>"

definition ex_fw1 :: Host where
  "ex_fw1 = \<lparr>hostname = ''fw'', iface = ''eth1'', ip_addr = 0x0A000101, masklen = 24,
             local_fw = ''1'', network_fw = ''1'', mng = ''0'', routed = []\<rparr>"

definition ex_a :: Host where
  "ex_a = \<lparr>hostname = ''a'', iface = ''eth0'', ip_addr = 0x0A000005, masklen = 24,
           local_fw = ''1'', network_fw = ''0'', mng = ''1'', routed = []\<rparr>"

definition ex_b :: Host where
  "ex_b = \<lparr>hostname = ''b'', iface = ''eth0'', ip_addr = 0x0A000107, masklen = 24,
           local_fw = ''1'', network_fw = ''0'', mng = ''1'', routed = []\<rparr>"

definition ex_dmz :: Network where
  "ex_dmz = \<lparr>Network.name = ''dmz'', ip_addr = 0x0A000200, masklen = 24\<rparr>"

definition ex_lan :: Network where
  "ex_lan = \<lparr>Network.name = ''lan'', ip_addr = 0x0A000000, masklen = 24\<rparr>"

definition ex_rule :: "string \<Rightarrow> string \<Rightarrow> string \<Rightarrow> string \<Rightarrow> Rule" where
  "ex_rule nm s d lv =
     \<lparr>Rule.enabled = ''1'', name = nm, src = s, src_serv = ''*'', dst = d, dst_serv = ''*'',
      action = ''ACCEPT'', log_level = lv, desc = []\<rparr>"

definition ex_clean :: string where
  "ex_clean = ''# On branch master; nothing to commit (working directory clean)''"

definition ex_dirty :: string where
  "ex_dirty = ''# On branch master; # Changes not staged for commit: rules.csv''"

definition ex_model :: "Rule list \<Rightarrow> FireSet" where
  "ex_model rs =
     \<lparr>rules = rs, hosts = [ex_fw0, ex_fw1, ex_a, ex_b], hostgroups = [], services = [],
      networks = [ex_lan, ex_dmz], git_status = ex_clean\<rparr>"

definition ex_store :: Rules where
  "ex_store =
     \<lparr>rules_list = [ex_rule ''r1'' ''*'' ''*'' ''0'', ex_rule ''r2'' ''*'' ''*'' ''0'',
                    ex_rule ''r3'' ''*'' ''*'' ''0''],
      rules_csv = [ex_rule ''r1'' ''*'' ''*'' ''0'', ex_rule ''r2'' ''*'' ''*'' ''0'',
                   ex_rule ''r3'' ''*'' ''*'' ''0'']\<rparr>"

definition ex_ssh :: fleet where
  "ex_ssh = \<lparr>ssh_get_confs = (\<lambda>d. Inr Map.empty), ssh_deliver_confs = (\<lambda>rd. Inr ()),
             ssh_apply_remote_confs = Inr ()\<rparr>"

definition ex_keys :: "ruledict \<Rightarrow> string list" where
  "ex_keys rd = filter (\<lambda>k. rd k \<noteq> None) [''fw'', ''a'', ''b'']"

definition ex_state :: "string \<Rightarrow> DeployState" where
  "ex_state status =
     \<lparr>fireset = (ex_model [])\<lparr>git_status := status\<rparr>, remote_confs = None, rd_attr = None,
      fleet_log = []\<rparr>"

text \<open>
  A name lies on a path into a cycle of the host-group graph: it reaches a name that reaches
  itself.
\<close>

definition on_cycle_path :: "(string \<rightharpoonup> string list) \<Rightarrow> string \<Rightarrow> bool" where
  "on_cycle_path hbn x = (\<exists>y. (x, y) \<in> (hg_edges hbn)\<^sup>* \<and> (y, y) \<in> (hg_edges hbn)\<^sup>+)"

text \<open>Two groups that contain each other, and a two-level tree of groups.\<close>

definition ex_g1 :: HostGroup where
  "ex_g1 = \<lparr>HostGroup.name = ''g1'', childs = [''a:eth0'', ''g2'']\<rparr>"

definition ex_g2 :: HostGroup where
  "ex_g2 = \<lparr>HostGroup.name = ''g2'', childs = [''g1'']\<rparr>"

definition ex_all :: HostGroup where
  "ex_all = \<lparr>HostGroup.name = ''all'', childs = [''a:eth0'', ''nets'']\<rparr>"

definition ex_nets :: HostGroup where
  "ex_nets = \<lparr>HostGroup.name = ''nets'', childs = [''dmz'', ''lan'']\<rparr>"

definition ex_rank :: "string \<Rightarrow> nat" where
  "ex_rank n = (if n = ''all'' then 2 else if n = ''nets'' then 1 else 0)"

text \<open>A compiled entry with no protocol and no ports, for a pair of endpoints.\<close>

definition ex_pair :: "endpoint option \<Rightarrow> endpoint option \<Rightarrow> Compiled" where
  "ex_pair s d =
     \<lparr>Compiled.proto = [], src = s, sports = [], dst = d, dports = [], log_val = 0,
      name = ''r'', action = ''ACCEPT''\<rparr>"

subsection \<open>What the splicing loop emits, as functions\<close>

text \<open>
  The lines that one compiled entry adds to the INPUT and to the OUTPUT chain for one row of
  the hosts table, the chain of a hostname in a dictionary (a hostname that is not yet a key
  would start with the first rules), and the rows of a hostname.
\<close>

definition emitted_input :: "Compiled \<Rightarrow> Host \<Rightarrow> string list" where
  "emitted_input t h = (if skip_pair (Compiled.src t) (Compiled.dst t) then [] else input_lines t h)"

definition emitted_output :: "Compiled \<Rightarrow> Host \<Rightarrow> string list" where
  "emitted_output t h = (if skip_pair (Compiled.src t) (Compiled.dst t) then [] else output_lines t h)"

definition input_of :: "ruledict \<Rightarrow> string \<Rightarrow> string list" where
  "input_of rd hn = (case rd hn of None \<Rightarrow> [stateful] | Some c \<Rightarrow> INPUT c)"

definition output_of :: "ruledict \<Rightarrow> string \<Rightarrow> string list" where
  "output_of rd hn = (case rd hn of None \<Rightarrow> [stateful] | Some c \<Rightarrow> OUTPUT c)"

definition rows_of :: "string \<Rightarrow> Host list \<Rightarrow> Host list" where
  "rows_of hn hs = filter (\<lambda>h. hostname h = hn) hs"

definition chain_at :: "(chains \<Rightarrow> string list) \<Rightarrow> string \<Rightarrow> error + ruledict \<Rightarrow> error + string list option" where
  "chain_at c hn r = (case r of Inl e \<Rightarrow> Inl e | Inr rd \<Rightarrow> Inr (map_option c (rd hn)))"

text \<open>What the compiler returns for the small fleet and the one rule from \<open>*\<close> to \<open>*\<close>.\<close>

definition ex_wild_rd :: ruledict where
  "ex_wild_rd =
     [''fw'' \<mapsto> \<lparr>INPUT = [stateful, '' -j ACCEPT'', '' -j ACCEPT''],
                OUTPUT = [stateful, '' -j ACCEPT'', '' -j ACCEPT''],
                FORWARD = [stateful, '' -j LOG --log-level 0 --log-prefix r'', '' -j ACCEPT'',
                           '' -j LOG --log-level 0 --log-prefix r'', '' -j ACCEPT'']\<rparr>,
      ''a'' \<mapsto> \<lparr>INPUT = [stateful, '' -j ACCEPT''], OUTPUT = [stateful, '' -j ACCEPT''],
               FORWARD = [''-j DROP'']\<rparr>,
      ''b'' \<mapsto> \<lparr>INPUT = [stateful, '' -j ACCEPT''], OUTPUT = [stateful, '' -j ACCEPT''],
               FORWARD = [''-j DROP'']\<rparr>]"

text \<open>
  The terminal names below a host group: the names that its children reach along the edges
  of the graph and that are no group names.
\<close>

definition terminal_names :: "(string \<rightharpoonup> string list) \<Rightarrow> HostGroup \<Rightarrow> string set" where
  "terminal_names hbn g =
     {y. \<exists>c \<in> set (HostGroup.childs g). (c, y) \<in> (hg_edges hbn)\<^sup>* \<and> hbn y = None}"

text \<open>A group with a child that is neither a host interface, nor a network, nor a group.\<close>

definition ex_bad :: HostGroup where
  "ex_bad = \<lparr>HostGroup.name = ''bad'', childs = [''a:eth0'', ''nosuch'']\<rparr>"

text \<open>The small fleet with an empty host group, and a rule from that group to \<open>*\<close>.\<close>

definition ex_nobody :: HostGroup where
  "ex_nobody = \<lparr>HostGroup.name = ''nobody'', childs = []\<rparr>"

definition ex_model_nobody :: FireSet where
  "ex_model_nobody =
     \<lparr>rules = [ex_rule ''r1'' ''a:eth0'' ''b:eth0'' ''0'', ex_rule ''r2'' ''nobody'' ''*'' ''0''],
      hosts = [ex_fw0, ex_fw1, ex_a, ex_b], hostgroups = [ex_nobody], services = [],
      networks = [ex_lan, ex_dmz], git_status = ex_clean\<rparr>"

section \<open>Address arithmetic: containment\<close>

lemma hostmask_eq_mask: "(push_bit m 1 - 1 :: ipv4) = mask m"
  by (simp add: mask_eq_exp_minus_1 push_bit_eq_mult)

lemma max_int_eq_mask: "(0xFFFFFFFF :: ipv4) = mask 32"
  by (simp add: mask_eq_exp_minus_1)

lemma net_addr_masked: "net_addr a n = masked_by_prefix a n"
proof (rule bit_word_eqI)
  fix k
  assume "k < LENGTH(32)"
  then show "bit (net_addr a n) k = bit (masked_by_prefix a n) k"
    unfolding net_addr_def masked_by_prefix_def hostmask_eq_mask max_int_eq_mask
    by (auto simp add: bit_simps)
qed

text \<open>
  C5. A Network contains a Host exactly when the Host's address masked by the Network's
  prefix length is the Network's address; a Network N1 contains a Network N2 exactly when
  N2's address masked by N1's prefix length is N1's address and N2's prefix length is at
  least N1's.
\<close>

theorem Network_contains_laws:
  "(Network_contains N (Some (EHost H)) \<longleftrightarrow>
      masked_by_prefix (Host.ip_addr H) (Network.masklen N) = Network.ip_addr N) \<and>
   (Network_contains N1 (Some (ENet N2)) \<longleftrightarrow>
      masked_by_prefix (Network.ip_addr N2) (Network.masklen N1) = Network.ip_addr N1 \<and>
      Network.masklen N2 \<ge> Network.masklen N1)"
  by (simp add: net_addr_masked)

section \<open>The rule table: reordering\<close>

lemma py_index_fails:
  "i \<ge> int (length xs) \<or> i < - int (length xs) \<Longrightarrow> py_index xs i = Inl IndexError"
  by (auto simp add: py_index_def)

lemma swap_assign_fails:
  "py_index xs a = Inl IndexError \<or> py_index xs b = Inl IndexError \<Longrightarrow> \<exists>e. swap_assign xs a b = Inl e"
  by (auto simp add: swap_assign_def py_getitem_def bind_err_def split: sum.splits)

text \<open>
  C9, as the code has it. A request whose index, or whose neighbour's index, is outside
  \<open>-len .. len - 1\<close> (\<^verbatim>\<open>moveup\<close> with \<open>rid \<ge> len\<close> or \<open>rid \<le> -len\<close>, \<^verbatim>\<open>movedown\<close> with
  \<open>rid \<ge> len - 1\<close>, which includes the last index, or \<open>rid < -len\<close>) returns normally: the
  \<^verbatim>\<open>IndexError\<close> is caught inside the method, and the rule list and the file are left as
  they were.
\<close>

theorem reorder_without_swap:
  "(rid \<ge> int (length (rules_list s)) \<or> rid \<le> - int (length (rules_list s)) \<longrightarrow>
      moveup s rid = Inr s) \<and>
   (rid \<ge> int (length (rules_list s)) - 1 \<or> rid < - int (length (rules_list s)) \<longrightarrow>
      movedown s rid = Inr s)"
proof (intro conjI impI)
  assume "rid \<ge> int (length (rules_list s)) \<or> rid \<le> - int (length (rules_list s))"
  then have "py_index (rules_list s) rid = Inl IndexError
      \<or> py_index (rules_list s) (rid - 1) = Inl IndexError"
    using py_index_fails [of "rules_list s" rid] py_index_fails [of "rules_list s" "rid - 1"]
    by auto
  then obtain e where "swap_assign (rules_list s) rid (rid - 1) = Inl e"
    using swap_assign_fails by blast
  then show "moveup s rid = Inr s" by (simp add: moveup_def)
next
  assume "rid \<ge> int (length (rules_list s)) - 1 \<or> rid < - int (length (rules_list s))"
  then have "py_index (rules_list s) rid = Inl IndexError
      \<or> py_index (rules_list s) (rid + 1) = Inl IndexError"
    using py_index_fails [of "rules_list s" rid] py_index_fails [of "rules_list s" "rid + 1"]
    by auto
  then obtain e where "swap_assign (rules_list s) rid (rid + 1) = Inl e"
    using swap_assign_fails by blast
  then show "movedown s rid = Inr s" by (simp add: movedown_def)
qed

theorem reorder_without_swap_witness:
  "moveup ex_store 3 = Inr ex_store \<and> movedown ex_store 2 = Inr ex_store"
  using reorder_without_swap [of ex_store 3] reorder_without_swap [of ex_store 2]
  by (simp add: ex_store_def)

text \<open>
  C9 as stated fails twice on a table of three rules: \<^verbatim>\<open>moveup(0)\<close> raises nothing and
  exchanges the first rule with the last (index \<open>-1\<close>), and \<^verbatim>\<open>movedown(2)\<close>, at the last
  index, returns normally instead of failing.
\<close>

theorem reorder_counterexample:
  "moveup ex_store 0 =
     Inr \<lparr>rules_list = [ex_rule ''r3'' ''*'' ''*'' ''0'', ex_rule ''r2'' ''*'' ''*'' ''0'',
                         ex_rule ''r1'' ''*'' ''*'' ''0''],
          rules_csv = [ex_rule ''r3'' ''*'' ''*'' ''0'', ex_rule ''r2'' ''*'' ''*'' ''0'',
                        ex_rule ''r1'' ''*'' ''*'' ''0'']\<rparr> \<and>
   movedown ex_store 2 = Inr ex_store"
  by (simp add: ex_store_def moveup_def movedown_def swap_assign_def py_getitem_def py_setitem_def
      py_index_def bind_err_def Rules_save_def)

section \<open>Deployment: the guard on unsaved changes\<close>

lemma save_needed_dirty: "save_needed (fireset (ex_state ex_dirty)) = Inr True"
  unfolding save_needed_def str_in_def ex_state_def ex_dirty_def ex_model_def
  apply simp
  by code_simp

text \<open>
  C8. When \<^verbatim>\<open>save_needed\<close> is true, \<^verbatim>\<open>deploy\<close> fails on its first statement with the
  assertion "Configuration must be saved before deployment.": what it returns is that error
  whatever the compiler or the hosts would have answered, and the object, the stored rules
  and the log of contacts with the hosts are as before.
\<close>

theorem deploy_save_gate:
  "save_needed (fireset s) = Inr True \<Longrightarrow>
   deploy fl keys limit s =
     (Inl (AssertionError ''Configuration must be saved before deployment.''), s)"
  by (simp add: deploy_def)

theorem deploy_save_gate_witness:
  "save_needed (fireset (ex_state ex_dirty)) = Inr True \<and>
   deploy ex_ssh ex_keys 1000 (ex_state ex_dirty) =
     (Inl (AssertionError ''Configuration must be saved before deployment.''), ex_state ex_dirty)"
  using deploy_save_gate [OF save_needed_dirty, of ex_ssh ex_keys 1000] save_needed_dirty
  by simp

text \<open>
  The guard is what stops a dirty model: a saved model with no host passes it and reaches the
  connector, and a saved model with hosts passes it and stops in \<^verbatim>\<open>_get_confs\<close>.
\<close>

lemma deploy_clean_goes_on:
  assumes "save_needed (fireset s) = Inr False"
    and "compile_rules limit (fireset s) = Inr rd"
  shows "hosts (fireset s) \<noteq> [] \<Longrightarrow>
           deploy fl keys limit s = (Inl UnboundLocalError, s\<lparr>remote_confs := None\<rparr>)"
    and "hosts (fireset s) = [] \<Longrightarrow> ssh_get_confs fl [] = Inr c \<Longrightarrow>
           deploy fl keys limit s =
             (Inl KeyError, s\<lparr>remote_confs := Some c, fleet_log := fleet_log s @ [GetConfs []]\<rparr>)"
  using assms by (simp_all add: deploy_def compile_def get_confs_def)

section \<open>Host groups: flattening\<close>

lemma mapM_err_Inr_D:
  "mapM_err f xs = Inr ys \<Longrightarrow> list_all2 (\<lambda>x y. f x = Inr y) xs ys"
proof (induction xs arbitrary: ys)
  case Nil
  then show ?case by simp
next
  case (Cons x xs)
  from Cons.prems obtain y zs where "f x = Inr y" "mapM_err f xs = Inr zs" "ys = y # zs"
    by (auto split: sum.splits)
  with Cons.IH [of zs] show ?case by simp
qed

lemma mapM_err_Inr_I:
  "list_all2 (\<lambda>x y. f x = Inr y) xs ys \<Longrightarrow> mapM_err f xs = Inr ys"
  by (induction xs ys rule: list_all2_induct) simp_all

lemma mapM_err_Inr_iff:
  "mapM_err f xs = Inr ys \<longleftrightarrow> list_all2 (\<lambda>x y. f x = Inr y) xs ys"
  using mapM_err_Inr_D mapM_err_Inr_I by blast

lemma mapM_err_Inl:
  assumes "x \<in> set xs" and "f x = Inl e" and "\<And>y e'. y \<in> set xs \<Longrightarrow> f y = Inl e' \<Longrightarrow> e' = e"
  shows "mapM_err f xs = Inl e"
  using assms
proof (induction xs)
  case Nil
  then show ?case by simp
next
  case (Cons a xs)
  show ?case
  proof (cases "f a")
    case (Inl e')
    have "e' = e" by (rule Cons.prems(3) [of a e']) (simp_all add: Inl)
    with Inl show ?thesis by simp
  next
    case (Inr b)
    have "x \<noteq> a" using Inr Cons.prems(2) by auto
    with Cons.prems(1) have x: "x \<in> set xs" by simp
    have "mapM_err f xs = Inl e"
    proof (rule Cons.IH [OF x Cons.prems(2)])
      fix y e'
      assume "y \<in> set xs" and fy: "f y = Inl e'"
      then have "y \<in> set (a # xs)" by simp
      then show "e' = e" using fy by (rule Cons.prems(3))
    qed
    with Inr show ?thesis by simp
  qed
qed

lemma mapM_err_error:
  "mapM_err f xs = Inl e \<Longrightarrow> \<exists>x \<in> set xs. f x = Inl e"
  by (induction xs) (auto split: sum.splits)

lemma flatten_error: "HostGroup_flatten d hbn i = Inl e \<Longrightarrow> e = RuntimeError"
proof (induction d arbitrary: i e)
  case 0
  then show ?case by simp
next
  case (Suc d)
  show ?case
  proof (cases i)
    case (HgObject g)
    with Suc.prems have "mapM_err (\<lambda>c. HostGroup_flatten d hbn (HgName c)) (HostGroup.childs g) = Inl e"
      by (auto simp add: bind_err_def split: sum.splits)
    from mapM_err_error [OF this] obtain c where "HostGroup_flatten d hbn (HgName c) = Inl e"
      by blast
    then show ?thesis by (rule Suc.IH)
  next
    case (HgName n)
    with Suc.prems obtain cs where "mapM_err (\<lambda>c. HostGroup_flatten d hbn (HgName c)) cs = Inl e"
      by (auto simp add: bind_err_def split: sum.splits option.splits)
    from mapM_err_error [OF this] obtain c where "HostGroup_flatten d hbn (HgName c) = Inl e"
      by blast
    then show ?thesis by (rule Suc.IH)
  qed
qed

lemma on_cycle_path_step:
  assumes "on_cycle_path hbn x"
  shows "\<exists>cs z. hbn x = Some cs \<and> z \<in> set cs \<and> on_cycle_path hbn z"
proof -
  from assms obtain y where xy: "(x, y) \<in> (hg_edges hbn)\<^sup>*" and yy: "(y, y) \<in> (hg_edges hbn)\<^sup>+"
    by (auto simp add: on_cycle_path_def)
  have "\<exists>z. (x, z) \<in> hg_edges hbn \<and> (z, y) \<in> (hg_edges hbn)\<^sup>*"
  proof (cases "x = y")
    case True
    with yy show ?thesis by (auto dest: tranclD)
  next
    case False
    from xy show ?thesis
    proof (cases rule: converse_rtranclE)
      case base
      with False show ?thesis by simp
    next
      case (step z)
      then show ?thesis by blast
    qed
  qed
  then obtain z where "(x, z) \<in> hg_edges hbn" and "(z, y) \<in> (hg_edges hbn)\<^sup>*" by blast
  with yy show ?thesis by (auto simp add: hg_edges_def on_cycle_path_def)
qed

lemma flatten_name_diverges:
  "on_cycle_path hbn x \<Longrightarrow> HostGroup_flatten d hbn (HgName x) = Inl RuntimeError"
proof (induction d arbitrary: x)
  case 0
  then show ?case by simp
next
  case (Suc d)
  from on_cycle_path_step [OF Suc.prems] obtain cs z
    where cs: "hbn x = Some cs" and z: "z \<in> set cs" and pz: "on_cycle_path hbn z" by blast
  have "mapM_err (\<lambda>c. HostGroup_flatten d hbn (HgName c)) cs = Inl RuntimeError"
    using z Suc.IH [OF pz] flatten_error by (rule mapM_err_Inl)
  with cs show ?case by (simp add: bind_err_def)
qed

lemma flatten_object_diverges:
  assumes "c \<in> set (HostGroup.childs g)" and "on_cycle_path hbn c"
  shows "HostGroup_flatten d hbn (HgObject g) = Inl RuntimeError"
proof (cases d)
  case 0
  then show ?thesis by simp
next
  case (Suc d')
  have "mapM_err (\<lambda>c. HostGroup_flatten d' hbn (HgName c)) (HostGroup.childs g) = Inl RuntimeError"
    using assms(1) flatten_name_diverges [OF assms(2)] flatten_error by (rule mapM_err_Inl)
  with Suc show ?thesis by (simp add: bind_err_def)
qed

lemma flatten_mono:
  "HostGroup_flatten d hbn i = Inr l \<Longrightarrow> d \<le> d' \<Longrightarrow> HostGroup_flatten d' hbn i = Inr l"
proof (induction d arbitrary: i l d')
  case 0
  then show ?case by simp
next
  case (Suc d)
  from Suc.prems(2) obtain e where d': "d' = Suc e" and de: "d \<le> e"
    by (cases d') auto
  have step: "mapM_err (\<lambda>c. HostGroup_flatten e hbn (HgName c)) cs = Inr ls"
    if h: "mapM_err (\<lambda>c. HostGroup_flatten d hbn (HgName c)) cs = Inr ls" for cs ls
  proof -
    from h have "list_all2 (\<lambda>c y. HostGroup_flatten d hbn (HgName c) = Inr y) cs ls"
      by (simp add: mapM_err_Inr_iff)
    then have "list_all2 (\<lambda>c y. HostGroup_flatten e hbn (HgName c) = Inr y) cs ls"
      by (rule list_all2_mono) (rule Suc.IH [OF _ de])
    then show ?thesis by (simp add: mapM_err_Inr_iff)
  qed
  show ?case
  proof (cases i)
    case (HgObject g)
    with Suc.prems(1) obtain ls where
      "mapM_err (\<lambda>c. HostGroup_flatten d hbn (HgName c)) (HostGroup.childs g) = Inr ls" "l = concat ls"
      by (auto simp add: bind_err_def split: sum.splits)
    with step HgObject d' show ?thesis by (simp add: bind_err_def)
  next
    case (HgName n)
    show ?thesis
    proof (cases "hbn n")
      case None
      with Suc.prems(1) HgName d' show ?thesis by simp
    next
      case (Some cs)
      with Suc.prems(1) HgName obtain ls where
        "mapM_err (\<lambda>c. HostGroup_flatten d hbn (HgName c)) cs = Inr ls" "l = concat ls"
        by (auto simp add: bind_err_def split: sum.splits)
      with step HgName Some d' show ?thesis by (simp add: bind_err_def)
    qed
  qed
qed

lemma mapM_flatten_enough:
  assumes "\<And>c. c \<in> set cs \<Longrightarrow> \<exists>d l. HostGroup_flatten d hbn (HgName c) = Inr l"
  shows "\<exists>D ls. mapM_err (\<lambda>c. HostGroup_flatten D hbn (HgName c)) cs = Inr ls"
  using assms
proof (induction cs)
  case Nil
  then show ?case by simp
next
  case (Cons c cs)
  from Cons.prems [of c] obtain d l where c: "HostGroup_flatten d hbn (HgName c) = Inr l" by auto
  from Cons.IH Cons.prems obtain D ls where
    cs: "mapM_err (\<lambda>c. HostGroup_flatten D hbn (HgName c)) cs = Inr ls" by auto
  have "HostGroup_flatten (max d D) hbn (HgName c) = Inr l"
    using c by (rule flatten_mono) simp
  moreover have "mapM_err (\<lambda>c. HostGroup_flatten (max d D) hbn (HgName c)) cs = Inr ls"
  proof -
    from cs have "list_all2 (\<lambda>c y. HostGroup_flatten D hbn (HgName c) = Inr y) cs ls"
      by (simp add: mapM_err_Inr_iff)
    then have "list_all2 (\<lambda>c y. HostGroup_flatten (max d D) hbn (HgName c) = Inr y) cs ls"
      by (rule list_all2_mono) (erule flatten_mono, simp)
    then show ?thesis by (simp add: mapM_err_Inr_iff)
  qed
  ultimately show ?case by (intro exI [of _ "max d D"]) simp
qed

lemma finite_hg_edges: "finite (dom hbn) \<Longrightarrow> finite (hg_edges hbn)"
proof -
  assume fin: "finite (dom hbn)"
  have "hg_edges hbn \<subseteq> (\<Union>x \<in> dom hbn. (\<lambda>y. (x, y)) ` set (the (hbn x)))"
    by (auto simp add: hg_edges_def)
  moreover have "finite (\<Union>x \<in> dom hbn. (\<lambda>y. (x, y)) ` set (the (hbn x)))"
    using fin by simp
  ultimately show ?thesis by (rule finite_subset)
qed

lemma flatten_name_terminates:
  assumes fin: "finite (dom hbn)" and acyc: "acyclic (hg_edges hbn)"
  shows "\<exists>d l. HostGroup_flatten d hbn (HgName x) = Inr l"
proof -
  have "wf ((hg_edges hbn)\<inverse>)"
    using finite_hg_edges [OF fin] acyc by (rule finite_acyclic_wf_converse)
  then show ?thesis
  proof (induction x rule: wf_induct_rule)
    case (less x)
    show ?case
    proof (cases "hbn x")
      case None
      then have "HostGroup_flatten (Suc 0) hbn (HgName x) = Inr [x]" by simp
      then show ?thesis by blast
    next
      case (Some cs)
      have "\<exists>d l. HostGroup_flatten d hbn (HgName c) = Inr l" if "c \<in> set cs" for c
        using less [of c] that Some by (auto simp add: hg_edges_def)
      from mapM_flatten_enough [of cs hbn, OF this] obtain D ls where
        "mapM_err (\<lambda>c. HostGroup_flatten D hbn (HgName c)) cs = Inr ls" by blast
      with Some have "HostGroup_flatten (Suc D) hbn (HgName x) = Inr (concat ls)"
        by (simp add: bind_err_def)
      then show ?thesis by blast
    qed
  qed
qed

lemma flatten_object_terminates:
  assumes fin: "finite (dom hbn)" and acyc: "acyclic (hg_edges hbn)"
  shows "\<exists>d l. HostGroup_flatten d hbn (HgObject g) = Inr l"
proof -
  from mapM_flatten_enough [of "HostGroup.childs g" hbn] flatten_name_terminates [OF fin acyc]
  obtain D ls where
    "mapM_err (\<lambda>c. HostGroup_flatten D hbn (HgName c)) (HostGroup.childs g) = Inr ls" by blast
  then have "HostGroup_flatten (Suc D) hbn (HgObject g) = Inr (concat ls)"
    by (simp add: bind_err_def)
  then show ?thesis by blast
qed

lemma finite_dom_hg_by_name: "finite (dom (hg_by_name hgs))"
  by (simp add: hg_by_name_def py_dict_def finite_dom_map_of)

lemma flat_res_cases:
  "flat_res hs ns n = Inl e \<Longrightarrow> e = PyException \<and> hs n = None \<and> ns n = None"
  by (auto simp add: flat_res_def split: option.splits)

lemma resolve_leaves:
  "(if \<forall>n \<in> set leaves. hs n \<noteq> None \<or> ns n \<noteq> None
    then \<exists>es. mapM_err (flat_res hs ns) leaves = Inr es \<and> list_all2 (\<lambda>n e. flat_res hs ns n = Inr e) leaves es
    else mapM_err (flat_res hs ns) leaves = Inl PyException)"
proof (cases "\<forall>n \<in> set leaves. hs n \<noteq> None \<or> ns n \<noteq> None")
  case True
  have "\<exists>es. mapM_err (flat_res hs ns) leaves = Inr es"
  proof (cases "mapM_err (flat_res hs ns) leaves")
    case (Inl e)
    from mapM_err_error [OF this] obtain n where "n \<in> set leaves" "flat_res hs ns n = Inl e"
      by blast
    with True flat_res_cases [of hs ns n e] show ?thesis by auto
  next
    case (Inr es)
    then show ?thesis by blast
  qed
  with True show ?thesis by (auto simp add: mapM_err_Inr_iff)
next
  case False
  then obtain n where n: "n \<in> set leaves" "hs n = None" "ns n = None" by auto
  then have "flat_res hs ns n = Inl PyException" by (simp add: flat_res_def)
  with n(1) have "mapM_err (flat_res hs ns) leaves = Inl PyException"
    by (rule mapM_err_Inl) (auto dest: flat_res_cases)
  with False show ?thesis by simp
qed

lemma no_edge_from_leaf: "hbn x = None \<Longrightarrow> (x, y) \<in> (hg_edges hbn)\<^sup>* \<Longrightarrow> y = x"
  by (erule converse_rtranclE) (auto simp add: hg_edges_def)

lemma reach_from_group:
  assumes "hbn x = Some cs"
  shows "{y. (x, y) \<in> (hg_edges hbn)\<^sup>* \<and> hbn y = None} =
         (\<Union>c \<in> set cs. {y. (c, y) \<in> (hg_edges hbn)\<^sup>* \<and> hbn y = None})"
proof (intro set_eqI iffI)
  fix y
  assume "y \<in> {y. (x, y) \<in> (hg_edges hbn)\<^sup>* \<and> hbn y = None}"
  then have xy: "(x, y) \<in> (hg_edges hbn)\<^sup>*" and y: "hbn y = None" by simp_all
  from xy show "y \<in> (\<Union>c \<in> set cs. {y. (c, y) \<in> (hg_edges hbn)\<^sup>* \<and> hbn y = None})"
  proof (cases rule: converse_rtranclE)
    case base
    with assms y show ?thesis by simp
  next
    case (step c)
    then have "c \<in> set cs" using assms by (simp add: hg_edges_def)
    with step(2) y show ?thesis by blast
  qed
next
  fix y
  assume "y \<in> (\<Union>c \<in> set cs. {y. (c, y) \<in> (hg_edges hbn)\<^sup>* \<and> hbn y = None})"
  then obtain c where c: "c \<in> set cs" "(c, y) \<in> (hg_edges hbn)\<^sup>*" "hbn y = None" by blast
  from c(1) assms have "(x, c) \<in> hg_edges hbn" by (simp add: hg_edges_def)
  then have "(x, y) \<in> (hg_edges hbn)\<^sup>*" using c(2) by (rule converse_rtrancl_into_rtrancl)
  with c(3) show "y \<in> {y. (x, y) \<in> (hg_edges hbn)\<^sup>* \<and> hbn y = None}" by simp
qed

lemma list_all2_Union:
  "list_all2 P cs ls \<Longrightarrow> (\<And>c l. c \<in> set cs \<Longrightarrow> P c l \<Longrightarrow> set l = R c) \<Longrightarrow>
   set (concat ls) = (\<Union>c \<in> set cs. R c)"
proof (induction rule: list_all2_induct)
  case Nil
  then show ?case by simp
next
  case (Cons c cs l ls)
  have "set l = R c" by (rule Cons.prems) (simp_all add: Cons.hyps)
  moreover have "set (concat ls) = (\<Union>c \<in> set cs. R c)"
    by (rule Cons.IH) (rule Cons.prems, simp_all)
  ultimately show ?case by simp
qed

lemma flatten_name_leaves:
  "HostGroup_flatten d hbn (HgName x) = Inr l \<Longrightarrow>
   set l = {y. (x, y) \<in> (hg_edges hbn)\<^sup>* \<and> hbn y = None}"
proof (induction d arbitrary: x l)
  case 0
  then show ?case by simp
next
  case (Suc d)
  show ?case
  proof (cases "hbn x")
    case None
    with Suc.prems have "l = [x]" by simp
    moreover have "{y. (x, y) \<in> (hg_edges hbn)\<^sup>* \<and> hbn y = None} = {x}"
      using no_edge_from_leaf [of hbn x] None by auto
    ultimately show ?thesis by simp
  next
    case (Some cs)
    with Suc.prems obtain ls where
      ls: "mapM_err (\<lambda>c. HostGroup_flatten d hbn (HgName c)) cs = Inr ls" and l: "l = concat ls"
      by (auto simp add: bind_err_def split: sum.splits)
    have "set (concat ls) = (\<Union>c \<in> set cs. {y. (c, y) \<in> (hg_edges hbn)\<^sup>* \<and> hbn y = None})"
      using mapM_err_Inr_D [OF ls] by (rule list_all2_Union) (rule Suc.IH)
    with l reach_from_group [of hbn x cs] Some show ?thesis by simp
  qed
qed

lemma flatten_object_leaves:
  assumes "HostGroup_flatten d hbn (HgObject g) = Inr l"
  shows "set l = terminal_names hbn g"
proof (cases d)
  case 0
  with assms show ?thesis by simp
next
  case (Suc d')
  with assms obtain ls where
    ls: "mapM_err (\<lambda>c. HostGroup_flatten d' hbn (HgName c)) (HostGroup.childs g) = Inr ls"
    and l: "l = concat ls"
    by (auto simp add: bind_err_def split: sum.splits)
  have "set (concat ls) =
      (\<Union>c \<in> set (HostGroup.childs g). {y. (c, y) \<in> (hg_edges hbn)\<^sup>* \<and> hbn y = None})"
    using mapM_err_Inr_D [OF ls] by (rule list_all2_Union) (rule flatten_name_leaves)
  with l show ?thesis by (auto simp add: terminal_names_def)
qed

text \<open>
  C7, as the code has it. Flattening a host group that has a child on a path into a cycle of
  groups detects nothing: whatever the recursion limit, the recursion runs into it, and
  \<^verbatim>\<open>flat\<close> ends with the interpreter's \<^verbatim>\<open>RuntimeError\<close>, never with the exception
  of an unresolved name. When the graph of the groups is acyclic, flattening returns the
  same leaves for every limit from some limit on, and these leaves are exactly the terminal
  names below the group; then \<^verbatim>\<open>flat\<close> returns the resolved leaves if every terminal
  name is a key of the host or of the network dictionary, and raises the exception of
  \<^verbatim>\<open>res\<close> otherwise.
\<close>

theorem flatten_cycles_and_leaves:
  "((\<exists>c \<in> set (HostGroup.childs g). \<exists>x. (c, x) \<in> (hg_edges (hg_by_name hgs))\<^sup>* \<and> (x, x) \<in> (hg_edges (hg_by_name hgs))\<^sup>+) \<longrightarrow>
      (\<forall>limit. flat limit g hs ns (hg_by_name hgs) = Inl RuntimeError)) \<and>
   (acyclic (hg_edges (hg_by_name hgs)) \<longrightarrow>
      (\<exists>limit0 leaves. set leaves = terminal_names (hg_by_name hgs) g \<and>
        (\<forall>limit \<ge> limit0.
          HostGroup_flatten limit (hg_by_name hgs) (HgObject g) = Inr leaves \<and>
          (if \<forall>n \<in> terminal_names (hg_by_name hgs) g. hs n \<noteq> None \<or> ns n \<noteq> None
           then \<exists>es. flat limit g hs ns (hg_by_name hgs) = Inr es \<and>
                     list_all2 (\<lambda>n e. flat_res hs ns n = Inr e) leaves es
           else flat limit g hs ns (hg_by_name hgs) = Inl PyException))))"
proof (intro conjI impI)
  assume "\<exists>c \<in> set (HostGroup.childs g). \<exists>x. (c, x) \<in> (hg_edges (hg_by_name hgs))\<^sup>* \<and> (x, x) \<in> (hg_edges (hg_by_name hgs))\<^sup>+"
  then obtain c where "c \<in> set (HostGroup.childs g)" "on_cycle_path (hg_by_name hgs) c"
    by (auto simp add: on_cycle_path_def)
  then have "HostGroup_flatten limit (hg_by_name hgs) (HgObject g) = Inl RuntimeError" for limit
    by (rule flatten_object_diverges)
  then show "\<forall>limit. flat limit g hs ns (hg_by_name hgs) = Inl RuntimeError"
    by (simp add: flat_def bind_err_def)
next
  assume "acyclic (hg_edges (hg_by_name hgs))"
  with finite_dom_hg_by_name obtain d leaves where
    d: "HostGroup_flatten d (hg_by_name hgs) (HgObject g) = Inr leaves"
    using flatten_object_terminates by blast
  have tl: "set leaves = terminal_names (hg_by_name hgs) g"
    using d by (rule flatten_object_leaves)
  have "HostGroup_flatten limit (hg_by_name hgs) (HgObject g) = Inr leaves" if "limit \<ge> d" for limit
    using d that by (rule flatten_mono)
  then show "\<exists>limit0 leaves. set leaves = terminal_names (hg_by_name hgs) g \<and>
        (\<forall>limit \<ge> limit0.
          HostGroup_flatten limit (hg_by_name hgs) (HgObject g) = Inr leaves \<and>
          (if \<forall>n \<in> terminal_names (hg_by_name hgs) g. hs n \<noteq> None \<or> ns n \<noteq> None
           then \<exists>es. flat limit g hs ns (hg_by_name hgs) = Inr es \<and>
                     list_all2 (\<lambda>n e. flat_res hs ns n = Inr e) leaves es
           else flat limit g hs ns (hg_by_name hgs) = Inl PyException))"
    using resolve_leaves [of leaves hs ns] tl
    by (intro exI [of _ d] exI [of _ leaves]) (simp add: flat_def bind_err_def)
qed

lemma acyclic_by_rank:
  assumes "\<And>x y. (x, y) \<in> r \<Longrightarrow> (f y :: nat) < f x"
  shows "acyclic r"
proof -
  have "r\<inverse> \<subseteq> measure f" using assms by auto
  then have "wf (r\<inverse>)" by (rule wf_subset [OF wf_measure])
  then have "acyclic (r\<inverse>)" by (rule wf_acyclic)
  then show ?thesis by simp
qed

lemma ex_tree_acyclic: "acyclic (hg_edges (hg_by_name [ex_all, ex_nets]))"
proof (rule acyclic_by_rank [where f = ex_rank])
  fix x y
  assume "(x, y) \<in> hg_edges (hg_by_name [ex_all, ex_nets])"
  then show "ex_rank y < ex_rank x"
    by (auto simp add: hg_edges_def hg_by_name_def py_dict_def ex_all_def ex_nets_def ex_rank_def
        split: if_splits)
qed

lemma ex_cycle: "on_cycle_path (hg_by_name [ex_g1, ex_g2]) ''g2''"
proof -
  have "(''g2'', ''g1'') \<in> hg_edges (hg_by_name [ex_g1, ex_g2])"
    by (simp add: hg_edges_def hg_by_name_def py_dict_def ex_g1_def ex_g2_def)
  moreover have "(''g1'', ''g2'') \<in> hg_edges (hg_by_name [ex_g1, ex_g2])"
    by (simp add: hg_edges_def hg_by_name_def py_dict_def ex_g1_def ex_g2_def)
  ultimately have "(''g2'', ''g2'') \<in> (hg_edges (hg_by_name [ex_g1, ex_g2]))\<^sup>+"
    by (rule trancl_into_trancl2 [OF _ r_into_trancl])
  then show ?thesis by (auto simp add: on_cycle_path_def)
qed

theorem flatten_cycles_and_leaves_witness:
  "(\<forall>limit. flat limit ex_g1 (host_by_name_col_iface (ex_model [])) (net_by_name (ex_model []))
        (hg_by_name [ex_g1, ex_g2]) = Inl RuntimeError) \<and>
   acyclic (hg_edges (hg_by_name [ex_all, ex_nets])) \<and>
   (\<exists>limit0 leaves. set leaves = terminal_names (hg_by_name [ex_all, ex_nets]) ex_all \<and>
     (\<forall>limit \<ge> limit0.
      HostGroup_flatten limit (hg_by_name [ex_all, ex_nets]) (HgObject ex_all) = Inr leaves \<and>
      (if \<forall>n \<in> terminal_names (hg_by_name [ex_all, ex_nets]) ex_all.
            host_by_name_col_iface (ex_model []) n \<noteq> None \<or> net_by_name (ex_model []) n \<noteq> None
       then \<exists>es. flat limit ex_all (host_by_name_col_iface (ex_model [])) (net_by_name (ex_model []))
                   (hg_by_name [ex_all, ex_nets]) = Inr es \<and>
                 list_all2 (\<lambda>n e. flat_res (host_by_name_col_iface (ex_model []))
                              (net_by_name (ex_model [])) n = Inr e) leaves es
       else flat limit ex_all (host_by_name_col_iface (ex_model [])) (net_by_name (ex_model []))
              (hg_by_name [ex_all, ex_nets]) = Inl PyException))) \<and>
   (\<exists>limit0. \<forall>limit \<ge> limit0.
      flat limit ex_bad (host_by_name_col_iface (ex_model [])) (net_by_name (ex_model []))
        (hg_by_name [ex_all, ex_nets]) = Inl PyException)"
proof -
  have "\<exists>c \<in> set (HostGroup.childs ex_g1). \<exists>x.
          (c, x) \<in> (hg_edges (hg_by_name [ex_g1, ex_g2]))\<^sup>* \<and>
          (x, x) \<in> (hg_edges (hg_by_name [ex_g1, ex_g2]))\<^sup>+"
    using ex_cycle by (simp add: on_cycle_path_def ex_g1_def)
  then have 1: "\<forall>limit. flat limit ex_g1 (host_by_name_col_iface (ex_model []))
        (net_by_name (ex_model [])) (hg_by_name [ex_g1, ex_g2]) = Inl RuntimeError"
    using flatten_cycles_and_leaves [of ex_g1 "[ex_g1, ex_g2]" "host_by_name_col_iface (ex_model [])"
        "net_by_name (ex_model [])"]
    by blast
  have "''nosuch'' \<in> terminal_names (hg_by_name [ex_all, ex_nets]) ex_bad"
    by (auto simp add: terminal_names_def ex_bad_def hg_by_name_def py_dict_def ex_all_def
        ex_nets_def)
  moreover have "host_by_name_col_iface (ex_model []) ''nosuch'' = None"
    and "net_by_name (ex_model []) ''nosuch'' = None"
    by (simp_all add: host_by_name_col_iface_def net_by_name_def py_dict_def ex_model_def
        ex_fw0_def ex_fw1_def ex_a_def ex_b_def ex_dmz_def ex_lan_def)
  ultimately have nb: "\<not> (\<forall>n \<in> terminal_names (hg_by_name [ex_all, ex_nets]) ex_bad.
      host_by_name_col_iface (ex_model []) n \<noteq> None \<or> net_by_name (ex_model []) n \<noteq> None)"
    by blast
  from flatten_cycles_and_leaves [of ex_bad "[ex_all, ex_nets]"
        "host_by_name_col_iface (ex_model [])" "net_by_name (ex_model [])",
        THEN conjunct2, THEN mp, OF ex_tree_acyclic]
  obtain limit0 leaves where
    "\<forall>limit \<ge> limit0.
          HostGroup_flatten limit (hg_by_name [ex_all, ex_nets]) (HgObject ex_bad) = Inr leaves \<and>
          (if \<forall>n \<in> terminal_names (hg_by_name [ex_all, ex_nets]) ex_bad.
                host_by_name_col_iface (ex_model []) n \<noteq> None \<or> net_by_name (ex_model []) n \<noteq> None
           then \<exists>es. flat limit ex_bad (host_by_name_col_iface (ex_model []))
                       (net_by_name (ex_model [])) (hg_by_name [ex_all, ex_nets]) = Inr es \<and>
                     list_all2 (\<lambda>n e. flat_res (host_by_name_col_iface (ex_model []))
                                  (net_by_name (ex_model [])) n = Inr e) leaves es
           else flat limit ex_bad (host_by_name_col_iface (ex_model []))
                  (net_by_name (ex_model [])) (hg_by_name [ex_all, ex_nets]) = Inl PyException)"
    by blast
  then have "\<forall>limit \<ge> limit0.
      flat limit ex_bad (host_by_name_col_iface (ex_model [])) (net_by_name (ex_model []))
        (hg_by_name [ex_all, ex_nets]) = Inl PyException"
    by (simp only: nb if_False) blast
  then have 3: "\<exists>limit0. \<forall>limit \<ge> limit0.
      flat limit ex_bad (host_by_name_col_iface (ex_model [])) (net_by_name (ex_model []))
        (hg_by_name [ex_all, ex_nets]) = Inl PyException"
    by (rule exI)
  show ?thesis
    using 1 3 ex_tree_acyclic
      flatten_cycles_and_leaves [of ex_all "[ex_all, ex_nets]" "host_by_name_col_iface (ex_model [])"
        "net_by_name (ex_model [])"]
    by blast
qed

text \<open>
  C7 as stated fails on two groups that contain each other: with room for a thousand nested
  calls, \<^verbatim>\<open>flat\<close> ends with \<^verbatim>\<open>RuntimeError\<close>, not with the exception for bad data.
\<close>

theorem flatten_cycle_counterexample:
  "flat 1000 ex_g1 (host_by_name_col_iface (ex_model [])) (net_by_name (ex_model []))
     (hg_by_name [ex_g1, ex_g2]) = Inl RuntimeError"
proof -
  have "''g2'' \<in> set (HostGroup.childs ex_g1)" by (simp add: ex_g1_def)
  then have "HostGroup_flatten 1000 (hg_by_name [ex_g1, ex_g2]) (HgObject ex_g1) = Inl RuntimeError"
    using ex_cycle by (rule flatten_object_diverges)
  then show ?thesis by (simp add: flat_def bind_err_def)
qed

text \<open>
  The tree of groups flattens to its three leaves, in the order of the children; the group
  with the unknown child ends with the exception of \<^verbatim>\<open>res\<close>.
\<close>

lemma ex_bad_flat:
  "flat 3 ex_bad (host_by_name_col_iface (ex_model [])) (net_by_name (ex_model []))
     (hg_by_name [ex_all, ex_nets]) = Inl PyException"
  by (simp add: flat_def bind_err_def numeral_3_eq_3 hg_by_name_def py_dict_def ex_all_def
      ex_nets_def ex_bad_def flat_res_def host_by_name_col_iface_def net_by_name_def ex_model_def
      ex_fw0_def ex_fw1_def ex_a_def ex_b_def ex_dmz_def ex_lan_def)


lemma ex_tree_flat:
  "flat 3 ex_all (host_by_name_col_iface (ex_model [])) (net_by_name (ex_model []))
     (hg_by_name [ex_all, ex_nets]) = Inr [EHost ex_a, ENet ex_dmz, ENet ex_lan]"
  by (simp add: flat_def bind_err_def numeral_3_eq_3 hg_by_name_def py_dict_def ex_all_def
      ex_nets_def flat_res_def host_by_name_col_iface_def net_by_name_def ex_model_def
      ex_fw0_def ex_fw1_def ex_a_def ex_b_def ex_dmz_def ex_lan_def)

section \<open>The rule compiler: pairs that are skipped\<close>

text \<open>The integer reader on some strings.\<close>

lemma py_int_examples:
  "py_int '' 5'' = Some 5 \<and> py_int ''-3 '' = Some (- 3) \<and> py_int ''+07'' = Some 7 \<and>
   py_int ''- 3'' = Some (- 3) \<and> py_int ''5 x'' = None \<and> py_int ''1 2'' = None \<and>
   py_int ''-'' = None \<and> py_int ''+-1'' = None \<and> py_int ''  '' = None \<and> py_int [] = None"
  by (simp add: py_int_def py_strip_def is_space_def parse_nat_def digit_val_def)

lemma digit_cases: "d < 10 \<Longrightarrow> d \<in> {0, 1, 2, 3, 4, 5, 6, 7, 8, 9 :: nat}"
  by auto

lemma digit_val_digit_char: "d < 10 \<Longrightarrow> digit_val (digit_char d) = Some d"
  using digit_cases [of d] by (auto simp add: digit_val_def digit_char_def)

lemma digit_char_in: "d < 10 \<Longrightarrow> digit_char d \<in> set ''0123456789''"
  using digit_cases [of d] by (auto simp add: digit_char_def)

lemma dec_digits: "set (dec n) \<subseteq> set ''0123456789''"
proof (induction n rule: dec.induct)
  case (1 n)
  show ?case
  proof (cases "n < 10")
    case True
    then show ?thesis using digit_char_in [of n] by (subst dec.simps) simp
  next
    case False
    then show ?thesis
      using 1 digit_char_in [of "n mod 10"] by (subst dec.simps) simp
  qed
qed

lemma parse_digits_snoc:
  "parse_digits acc (xs @ [c]) =
     (case parse_digits acc xs of None \<Rightarrow> None
      | Some v \<Rightarrow> (case digit_val c of None \<Rightarrow> None | Some d \<Rightarrow> Some (10 * v + d)))"
  by (induction xs arbitrary: acc) (simp_all split: option.splits)

lemma parse_digits_dec: "parse_digits 0 (dec n) = Some n"
proof (induction n rule: dec.induct)
  case (1 n)
  show ?case
  proof (cases "n < 10")
    case True
    then show ?thesis by (subst dec.simps) (simp add: digit_val_digit_char)
  next
    case False
    then have "parse_digits 0 (dec (n div 10)) = Some (n div 10)" by (rule 1)
    with False show ?thesis
      by (subst dec.simps) (simp add: parse_digits_snoc digit_val_digit_char)
  qed
qed

lemma dec_inj:
  assumes "dec n = dec m"
  shows "n = m"
proof -
  have "Some n = parse_digits 0 (dec n)" by (simp only: parse_digits_dec)
  also have "\<dots> = parse_digits 0 (dec m)" by (simp only: assms)
  also have "\<dots> = Some m" by (simp only: parse_digits_dec)
  finally show ?thesis by simp
qed

lemma split_at_sep:
  "xs @ c # r = ys @ c # r' \<Longrightarrow> c \<notin> set xs \<Longrightarrow> c \<notin> set ys \<Longrightarrow> xs = ys \<and> r = r'"
proof (induction xs arbitrary: ys)
  case Nil
  then show ?case by (cases ys) auto
next
  case (Cons x xs)
  then show ?case by (cases ys) auto
qed

lemma dot_not_in_dec: "CHR ''.'' \<notin> set (dec n)"
  using dec_digits [of n] by auto

lemma slash_not_in_dec: "CHR ''/'' \<notin> set (dec n)"
  using dec_digits [of n] by auto

lemma slash_not_in_ip_str: "CHR ''/'' \<notin> set (ip_str a)"
  by (simp add: ip_str_def slash_not_in_dec)

lemma unat_octets:
  "unat (a :: ipv4) = octet a 3 * 16777216 + octet a 2 * 65536 + octet a 1 * 256 + octet a 0"
proof -
  define n where "n = unat a"
  have "n < 4294967296" using unsigned_less [of a, where 'a = nat] by (simp add: n_def)
  then have d: "(n div 16777216) mod 256 = n div 16777216" by simp
  have a: "n = (n div 256) * 256 + n mod 256" by simp
  have "n div 256 div 256 = n div 65536" by (simp add: div_mult2_eq [symmetric])
  then have b: "n div 256 = (n div 65536) * 256 + (n div 256) mod 256"
    using div_mult_mod_eq [of "n div 256" 256] by simp
  have "n div 65536 div 256 = n div 16777216" by (simp add: div_mult2_eq [symmetric])
  then have c: "n div 65536 = (n div 16777216) * 256 + (n div 65536) mod 256"
    using div_mult_mod_eq [of "n div 65536" 256] by simp
  have "n = (n div 16777216) mod 256 * 16777216 + (n div 65536) mod 256 * 65536
            + (n div 256) mod 256 * 256 + n mod 256"
    using a b c d by linarith
  then show ?thesis unfolding octet_def n_def [symmetric] using d by simp
qed

lemma ip_str_inj: "ip_str a = ip_str b \<Longrightarrow> a = b"
proof -
  assume eq: "ip_str a = ip_str b"
  then have e: "dec (octet a 3) @ CHR ''.'' # (dec (octet a 2) @ CHR ''.'' # (dec (octet a 1) @ CHR ''.'' # dec (octet a 0))) =
       dec (octet b 3) @ CHR ''.'' # (dec (octet b 2) @ CHR ''.'' # (dec (octet b 1) @ CHR ''.'' # dec (octet b 0)))"
    by (simp add: ip_str_def)
  note s3 = split_at_sep [OF e dot_not_in_dec dot_not_in_dec]
  note s2 = split_at_sep [OF s3 [THEN conjunct2] dot_not_in_dec dot_not_in_dec]
  note s1 = split_at_sep [OF s2 [THEN conjunct2] dot_not_in_dec dot_not_in_dec]
  have "octet a 3 = octet b 3" by (rule dec_inj [OF s3 [THEN conjunct1]])
  moreover have "octet a 2 = octet b 2" by (rule dec_inj [OF s2 [THEN conjunct1]])
  moreover have "octet a 1 = octet b 1" by (rule dec_inj [OF s1 [THEN conjunct1]])
  moreover have "octet a 0 = octet b 0" by (rule dec_inj [OF s1 [THEN conjunct2]])
  ultimately have "unat a = unat b"
    by (simp only: unat_octets [of a] unat_octets [of b])
  then show "a = b" by (simp add: word_unat_eq_iff)
qed

lemma ipt_host_eq: "ipt (EHost h1) = ipt (EHost h2) \<longleftrightarrow> Host.ip_addr h1 = Host.ip_addr h2"
proof
  assume "ipt (EHost h1) = ipt (EHost h2)"
  then have "ip_str (Host.ip_addr h1) = ip_str (Host.ip_addr h2)" by simp
  then show "Host.ip_addr h1 = Host.ip_addr h2" by (rule ip_str_inj)
next
  assume "Host.ip_addr h1 = Host.ip_addr h2"
  then show "ipt (EHost h1) = ipt (EHost h2)" by simp
qed

lemma ipt_net_eq:
  "ipt (ENet n1) = ipt (ENet n2) \<longleftrightarrow>
     Network.ip_addr n1 = Network.ip_addr n2 \<and> Network.masklen n1 = Network.masklen n2"
proof
  assume "ipt (ENet n1) = ipt (ENet n2)"
  then have e: "ip_str (Network.ip_addr n1) @ CHR ''/'' # dec (Network.masklen n1) =
      ip_str (Network.ip_addr n2) @ CHR ''/'' # dec (Network.masklen n2)"
    by simp
  note sp = split_at_sep [OF e slash_not_in_ip_str slash_not_in_ip_str]
  have "Network.ip_addr n1 = Network.ip_addr n2" by (rule ip_str_inj [OF sp [THEN conjunct1]])
  moreover have "Network.masklen n1 = Network.masklen n2" by (rule dec_inj [OF sp [THEN conjunct2]])
  ultimately show "Network.ip_addr n1 = Network.ip_addr n2 \<and> Network.masklen n1 = Network.masklen n2"
    by simp
next
  assume "Network.ip_addr n1 = Network.ip_addr n2 \<and> Network.masklen n1 = Network.masklen n2"
  then show "ipt (ENet n1) = ipt (ENet n2)" by simp
qed

lemma ipt_host_net: "ipt (EHost h) \<noteq> ipt (ENet n)"
proof
  assume "ipt (EHost h) = ipt (ENet n)"
  then have "set (ip_str (Host.ip_addr h)) = set (ip_str (Network.ip_addr n) @ ''/'' @ dec (Network.masklen n))"
    by simp
  then show False using slash_not_in_ip_str [of "Host.ip_addr h"] by simp
qed

lemma skip_pair_cases:
  "skip_pair s d \<longleftrightarrow>
      (\<exists>h1 h2. s = Some (EHost h1) \<and> d = Some (EHost h2) \<and> Host.ip_addr h1 = Host.ip_addr h2) \<or>
      (\<exists>n1 n2. s = Some (ENet n1) \<and> d = Some (ENet n2) \<and>
         Network.ip_addr n1 = Network.ip_addr n2 \<and> Network.masklen n1 = Network.masklen n2)"
proof (cases s)
  case None
  then show ?thesis by (simp add: skip_pair_def)
next
  case s: (Some s')
  show ?thesis
  proof (cases d)
    case None
    with s show ?thesis by (simp add: skip_pair_def)
  next
    case d: (Some d')
    show ?thesis
    proof (cases s')
      case (EHost h1)
      show ?thesis
      proof (cases d')
        case (EHost h2)
        with s d \<open>s' = EHost h1\<close> show ?thesis
          using ipt_host_eq [of h1 h2] by (simp add: skip_pair_def)
      next
        case (ENet n2)
        with s d \<open>s' = EHost h1\<close> show ?thesis
          using ipt_host_net [of h1 n2] by (simp add: skip_pair_def)
      qed
    next
      case (ENet n1)
      show ?thesis
      proof (cases d')
        case (EHost h2)
        with s d \<open>s' = ENet n1\<close> show ?thesis
          using ipt_host_net [of h2 n1] by (auto simp add: skip_pair_def)
      next
        case (ENet n2)
        with s d \<open>s' = ENet n1\<close> show ?thesis
          using ipt_net_eq [of n1 n2] by (simp add: skip_pair_def)
      qed
    qed
  qed
qed

lemma emitted_line_shape:
  assumes "l \<in> {action_line t, log_line t, input_log_line h t}"
  shows "\<exists>pfx \<in> {[], ''-i '' @ iface h @ '' ''}.
             \<exists>sfx \<in> {Compiled.action t,
                      ''LOG --log-level '' @ str_int (Compiled.log_val t) @ '' --log-prefix '' @ Compiled.name t}.
               l = pfx @ Compiled.proto t
           @ (case Compiled.src t of None \<Rightarrow> [] | Some x \<Rightarrow> '' -s '' @ ipt x)
           @ Compiled.sports t
           @ (case Compiled.dst t of None \<Rightarrow> [] | Some y \<Rightarrow> '' -d '' @ ipt y)
           @ Compiled.dports t @ '' -j '' @ sfx"
proof -
  let ?m = "Compiled.proto t
           @ (case Compiled.src t of None \<Rightarrow> [] | Some x \<Rightarrow> '' -s '' @ ipt x)
           @ Compiled.sports t
           @ (case Compiled.dst t of None \<Rightarrow> [] | Some y \<Rightarrow> '' -d '' @ ipt y)
           @ Compiled.dports t"
  have m: "matcher t = ?m" by (simp add: matcher_def src_str_def dst_str_def)
  from assms consider "l = action_line t" | "l = log_line t" | "l = input_log_line h t" by blast
  then show ?thesis
  proof cases
    case 1
    show ?thesis
      by (rule bexI [of _ "[]"], rule bexI [of _ "Compiled.action t"])
        (simp_all add: 1 action_line_def m)
  next
    case 2
    show ?thesis
      by (rule bexI [of _ "[]"],
          rule bexI [of _ "''LOG --log-level '' @ str_int (Compiled.log_val t) @ '' --log-prefix '' @ Compiled.name t"])
        (simp_all add: 2 log_line_def m)
  next
    case 3
    show ?thesis
      by (rule bexI [of _ "''-i '' @ iface h @ '' ''"],
          rule bexI [of _ "''LOG --log-level '' @ str_int (Compiled.log_val t) @ '' --log-prefix '' @ Compiled.name t"])
        (simp_all add: 3 input_log_line_def log_line_def m)
  qed
qed

lemma splice_host_added:
  assumes "splice_host net t rd h = Inr rd'"
  shows "\<exists>c' ai ao af. rd' = rd(hostname h \<mapsto> c')
      \<and> INPUT c' = INPUT (case rd (hostname h) of None \<Rightarrow> first_rules h | Some c \<Rightarrow> c) @ ai
      \<and> OUTPUT c' = OUTPUT (case rd (hostname h) of None \<Rightarrow> first_rules h | Some c \<Rightarrow> c) @ ao
      \<and> FORWARD c' = FORWARD (case rd (hostname h) of None \<Rightarrow> first_rules h | Some c \<Rightarrow> c) @ af
      \<and> set ai \<union> set ao \<union> set af \<subseteq> {action_line t, log_line t, input_log_line h t}
      \<and> (skip_pair (Compiled.src t) (Compiled.dst t) \<longrightarrow> ai = [] \<and> ao = [] \<and> af = [])"
proof -
  define c0 where "c0 = (case rd (hostname h) of None \<Rightarrow> first_rules h | Some c \<Rightarrow> c)"
  show ?thesis
  proof (cases "skip_pair (Compiled.src t) (Compiled.dst t)")
    case True
    with assms have "rd' = rd(hostname h \<mapsto> c0)" by (simp add: splice_host_def c0_def)
    then show ?thesis unfolding c0_def [symmetric]
      by (intro exI [of _ c0] exI [of _ "[]"]) simp
  next
    case False
    define c2 where "c2 = c0\<lparr>INPUT := INPUT c0 @ input_lines t h, OUTPUT := OUTPUT c0 @ output_lines t h\<rparr>"
    have dj: "rd' = rd(hostname h \<mapsto> c2) \<or>
          rd' = rd(hostname h \<mapsto> c2\<lparr>FORWARD := FORWARD c2 @ [log_line t, action_line t]\<rparr>)"
      using assms False unfolding splice_host_def Let_def c0_def [symmetric] bind_err_def
      by (auto simp add: c2_def split: if_splits sum.splits)
    have il: "set (input_lines t h) \<subseteq> {action_line t, log_line t, input_log_line h t}"
      and ol: "set (output_lines t h) \<subseteq> {action_line t, log_line t, input_log_line h t}"
      by (auto simp add: input_lines_def output_lines_def)
    from dj show ?thesis unfolding c0_def [symmetric]
    proof (elim disjE)
      assume r: "rd' = rd(hostname h \<mapsto> c2)"
      show "\<exists>c' ai ao af. rd' = rd(hostname h \<mapsto> c') \<and> INPUT c' = INPUT c0 @ ai \<and>
          OUTPUT c' = OUTPUT c0 @ ao \<and> FORWARD c' = FORWARD c0 @ af \<and>
          set ai \<union> set ao \<union> set af \<subseteq> {action_line t, log_line t, input_log_line h t} \<and>
          (skip_pair (Compiled.src t) (Compiled.dst t) \<longrightarrow> ai = [] \<and> ao = [] \<and> af = [])"
        using r il ol False
        by (intro exI [of _ c2] exI [of _ "input_lines t h"] exI [of _ "output_lines t h"]
            exI [of _ "[]"]) (simp add: c2_def)
    next
      assume r: "rd' = rd(hostname h \<mapsto> c2\<lparr>FORWARD := FORWARD c2 @ [log_line t, action_line t]\<rparr>)"
      show "\<exists>c' ai ao af. rd' = rd(hostname h \<mapsto> c') \<and> INPUT c' = INPUT c0 @ ai \<and>
          OUTPUT c' = OUTPUT c0 @ ao \<and> FORWARD c' = FORWARD c0 @ af \<and>
          set ai \<union> set ao \<union> set af \<subseteq> {action_line t, log_line t, input_log_line h t} \<and>
          (skip_pair (Compiled.src t) (Compiled.dst t) \<longrightarrow> ai = [] \<and> ao = [] \<and> af = [])"
        using r il ol False
        by (intro exI [of _ "c2\<lparr>FORWARD := FORWARD c2 @ [log_line t, action_line t]\<rparr>"]
            exI [of _ "input_lines t h"] exI [of _ "output_lines t h"]
            exI [of _ "[log_line t, action_line t]"]) (simp add: c2_def)
    qed
  qed
qed

text \<open>
  C6, as the code has it. A pair is skipped exactly when neither endpoint is the wildcard and
  the two render alike for iptables: two hosts with the same address, or two networks with
  the same address and the same prefix length. A skipped pair adds no line to any chain of
  any host (only the first rules of a host not yet seen are inserted). Whatever one pass of
  the loop over the hosts adds to the three chains, every added line is the text
  \<^verbatim>\<open>proto -s src sports -d dst dports -j\<close> of the pair, with nothing or \<^verbatim>\<open>-i iface\<close>
  before it and the action or the LOG target after it; the renderings of the two endpoints
  stand after \<^verbatim>\<open>-s\<close> and \<^verbatim>\<open>-d\<close>, and these two renderings differ. A pair of a host and a network, and a pair with a
  wildcard, is never skipped.
\<close>

theorem skip_pair_identical:
  "(skip_pair s d \<longleftrightarrow>
      (\<exists>h1 h2. s = Some (EHost h1) \<and> d = Some (EHost h2) \<and> Host.ip_addr h1 = Host.ip_addr h2) \<or>
      (\<exists>n1 n2. s = Some (ENet n1) \<and> d = Some (ENet n2) \<and>
         Network.ip_addr n1 = Network.ip_addr n2 \<and> Network.masklen n1 = Network.masklen n2)) \<and>
   (skip_pair (Compiled.src t) (Compiled.dst t) \<longrightarrow>
      splice_host net t rd h =
        Inr (rd(hostname h \<mapsto> (case rd (hostname h) of None \<Rightarrow> first_rules h | Some c \<Rightarrow> c)))) \<and>
   (splice_host net t rd h = Inr rd' \<longrightarrow>
      (\<exists>c' ai ao af.
         rd' = rd(hostname h \<mapsto> c') \<and>
         INPUT c' = INPUT (case rd (hostname h) of None \<Rightarrow> first_rules h | Some c \<Rightarrow> c) @ ai \<and>
         OUTPUT c' = OUTPUT (case rd (hostname h) of None \<Rightarrow> first_rules h | Some c \<Rightarrow> c) @ ao \<and>
         FORWARD c' = FORWARD (case rd (hostname h) of None \<Rightarrow> first_rules h | Some c \<Rightarrow> c) @ af \<and>
         (\<forall>l \<in> set ai \<union> set ao \<union> set af.
            (\<exists>pfx \<in> {[], ''-i '' @ iface h @ '' ''}.
             \<exists>sfx \<in> {Compiled.action t,
                      ''LOG --log-level '' @ str_int (Compiled.log_val t) @ '' --log-prefix '' @ Compiled.name t}.
               l = pfx @ Compiled.proto t
               @ (case Compiled.src t of None \<Rightarrow> [] | Some x \<Rightarrow> '' -s '' @ ipt x)
               @ Compiled.sports t
               @ (case Compiled.dst t of None \<Rightarrow> [] | Some y \<Rightarrow> '' -d '' @ ipt y)
               @ Compiled.dports t @ '' -j '' @ sfx) \<and>
            (\<forall>x y. Compiled.src t = Some x \<and> Compiled.dst t = Some y \<longrightarrow> ipt x \<noteq> ipt y))))"
proof (intro conjI impI)
  show "skip_pair s d \<longleftrightarrow>
      (\<exists>h1 h2. s = Some (EHost h1) \<and> d = Some (EHost h2) \<and> Host.ip_addr h1 = Host.ip_addr h2) \<or>
      (\<exists>n1 n2. s = Some (ENet n1) \<and> d = Some (ENet n2) \<and>
         Network.ip_addr n1 = Network.ip_addr n2 \<and> Network.masklen n1 = Network.masklen n2)"
    by (rule skip_pair_cases)
next
  assume "skip_pair (Compiled.src t) (Compiled.dst t)"
  then show "splice_host net t rd h =
        Inr (rd(hostname h \<mapsto> (case rd (hostname h) of None \<Rightarrow> first_rules h | Some c \<Rightarrow> c)))"
    by (simp add: splice_host_def)
next
  assume "splice_host net t rd h = Inr rd'"
  from splice_host_added [OF this] obtain c' ai ao af where
    r: "rd' = rd(hostname h \<mapsto> c')"
      "INPUT c' = INPUT (case rd (hostname h) of None \<Rightarrow> first_rules h | Some c \<Rightarrow> c) @ ai"
      "OUTPUT c' = OUTPUT (case rd (hostname h) of None \<Rightarrow> first_rules h | Some c \<Rightarrow> c) @ ao"
      "FORWARD c' = FORWARD (case rd (hostname h) of None \<Rightarrow> first_rules h | Some c \<Rightarrow> c) @ af"
    and sub: "set ai \<union> set ao \<union> set af \<subseteq> {action_line t, log_line t, input_log_line h t}"
    and sk: "skip_pair (Compiled.src t) (Compiled.dst t) \<longrightarrow> ai = [] \<and> ao = [] \<and> af = []"
    by blast
  have "(\<exists>pfx \<in> {[], ''-i '' @ iface h @ '' ''}.
             \<exists>sfx \<in> {Compiled.action t,
                      ''LOG --log-level '' @ str_int (Compiled.log_val t) @ '' --log-prefix '' @ Compiled.name t}.
               l = pfx @ Compiled.proto t
               @ (case Compiled.src t of None \<Rightarrow> [] | Some x \<Rightarrow> '' -s '' @ ipt x)
               @ Compiled.sports t
               @ (case Compiled.dst t of None \<Rightarrow> [] | Some y \<Rightarrow> '' -d '' @ ipt y)
               @ Compiled.dports t @ '' -j '' @ sfx) \<and>
        (\<forall>x y. Compiled.src t = Some x \<and> Compiled.dst t = Some y \<longrightarrow> ipt x \<noteq> ipt y)"
    if l: "l \<in> set ai \<union> set ao \<union> set af" for l
  proof
    from l sub have "l \<in> {action_line t, log_line t, input_log_line h t}" by blast
    then show "\<exists>pfx \<in> {[], ''-i '' @ iface h @ '' ''}.
             \<exists>sfx \<in> {Compiled.action t,
                      ''LOG --log-level '' @ str_int (Compiled.log_val t) @ '' --log-prefix '' @ Compiled.name t}.
               l = pfx @ Compiled.proto t
               @ (case Compiled.src t of None \<Rightarrow> [] | Some x \<Rightarrow> '' -s '' @ ipt x)
               @ Compiled.sports t
               @ (case Compiled.dst t of None \<Rightarrow> [] | Some y \<Rightarrow> '' -d '' @ ipt y)
               @ Compiled.dports t @ '' -j '' @ sfx"
      by (rule emitted_line_shape)
    from l sk have "\<not> skip_pair (Compiled.src t) (Compiled.dst t)" by auto
    then show "\<forall>x y. Compiled.src t = Some x \<and> Compiled.dst t = Some y \<longrightarrow> ipt x \<noteq> ipt y"
      by (auto simp add: skip_pair_def)
  qed
  with r show "\<exists>c' ai ao af.
         rd' = rd(hostname h \<mapsto> c') \<and>
         INPUT c' = INPUT (case rd (hostname h) of None \<Rightarrow> first_rules h | Some c \<Rightarrow> c) @ ai \<and>
         OUTPUT c' = OUTPUT (case rd (hostname h) of None \<Rightarrow> first_rules h | Some c \<Rightarrow> c) @ ao \<and>
         FORWARD c' = FORWARD (case rd (hostname h) of None \<Rightarrow> first_rules h | Some c \<Rightarrow> c) @ af \<and>
         (\<forall>l \<in> set ai \<union> set ao \<union> set af.
            (\<exists>pfx \<in> {[], ''-i '' @ iface h @ '' ''}.
             \<exists>sfx \<in> {Compiled.action t,
                      ''LOG --log-level '' @ str_int (Compiled.log_val t) @ '' --log-prefix '' @ Compiled.name t}.
               l = pfx @ Compiled.proto t
               @ (case Compiled.src t of None \<Rightarrow> [] | Some x \<Rightarrow> '' -s '' @ ipt x)
               @ Compiled.sports t
               @ (case Compiled.dst t of None \<Rightarrow> [] | Some y \<Rightarrow> '' -d '' @ ipt y)
               @ Compiled.dports t @ '' -j '' @ sfx) \<and>
            (\<forall>x y. Compiled.src t = Some x \<and> Compiled.dst t = Some y \<longrightarrow> ipt x \<noteq> ipt y))"
    by blast
qed

theorem skip_pair_identical_witness:
  "skip_pair (Some (EHost ex_a)) (Some (EHost ex_a)) \<and>
   splice_host (net_dict (ex_model [])) (ex_pair (Some (EHost ex_a)) (Some (EHost ex_a))) Map.empty ex_fw0 =
     Inr [''fw'' \<mapsto> first_rules ex_fw0] \<and>
   \<not> skip_pair (Some (EHost ex_a)) (Some (ENet ex_lan)) \<and>
   splice_host (net_dict (ex_model [])) (ex_pair (Some (EHost ex_a)) (Some (EHost ex_b))) Map.empty ex_b =
     Inr [''b'' \<mapsto> \<lparr>INPUT = [stateful, '' -s 10.0.0.5 -d 10.0.1.7 -j ACCEPT''],
                       OUTPUT = [stateful], FORWARD = [''-j DROP'']\<rparr>] \<and>
   (\<exists>pfx sfx. '' -s 10.0.0.5 -d 10.0.1.7 -j ACCEPT'' =
      pfx @ '' -s '' @ ipt (EHost ex_a) @ '' -d '' @ ipt (EHost ex_b) @ '' -j '' @ sfx) \<and>
   ipt (EHost ex_a) \<noteq> ipt (EHost ex_b)"
proof -
  have 1: "skip_pair (Some (EHost ex_a)) (Some (EHost ex_a))"
    using skip_pair_identical [where s = "Some (EHost ex_a)" and d = "Some (EHost ex_a)"] by simp
  have 2: "\<not> skip_pair (Some (EHost ex_a)) (Some (ENet ex_lan))"
    using skip_pair_identical [where s = "Some (EHost ex_a)" and d = "Some (ENet ex_lan)"] by simp
  have 3: "splice_host (net_dict (ex_model [])) (ex_pair (Some (EHost ex_a)) (Some (EHost ex_a)))
      Map.empty ex_fw0 = Inr [''fw'' \<mapsto> first_rules ex_fw0]"
    using 1
      skip_pair_identical [where t = "ex_pair (Some (EHost ex_a)) (Some (EHost ex_a))"
        and net = "net_dict (ex_model [])" and rd = Map.empty and h = ex_fw0]
    by (simp add: ex_pair_def ex_fw0_def)
  have ev: "splice_host (net_dict (ex_model [])) (ex_pair (Some (EHost ex_a)) (Some (EHost ex_b)))
      Map.empty ex_b =
     Inr [''b'' \<mapsto> \<lparr>INPUT = [stateful, '' -s 10.0.0.5 -d 10.0.1.7 -j ACCEPT''],
                       OUTPUT = [stateful], FORWARD = [''-j DROP'']\<rparr>]"
    by (simp add: splice_host_def skip_pair_def input_lines_def output_lines_def host_in_def
        Host_contains_def first_rules_def action_line_def matcher_def src_str_def dst_str_def
        ip_str_def octet_def dec.simps digit_char_def ex_pair_def ex_a_def ex_b_def Let_def)
  from skip_pair_identical [where t = "ex_pair (Some (EHost ex_a)) (Some (EHost ex_b))"
        and net = "net_dict (ex_model [])" and rd = Map.empty and h = ex_b,
        THEN conjunct2, THEN conjunct2, THEN mp, OF ev]
  obtain c' ai ao af where
    r: "[''b'' \<mapsto> \<lparr>INPUT = [stateful, '' -s 10.0.0.5 -d 10.0.1.7 -j ACCEPT''],
                       OUTPUT = [stateful], FORWARD = [''-j DROP'']\<rparr>] = Map.empty(hostname ex_b \<mapsto> c')"
    and i: "INPUT c' = INPUT (case Map.empty (hostname ex_b) of None \<Rightarrow> first_rules ex_b | Some c \<Rightarrow> c) @ ai"
    and all: "\<forall>l \<in> set ai \<union> set ao \<union> set af.
            (\<exists>pfx \<in> {[], ''-i '' @ iface ex_b @ '' ''}.
             \<exists>sfx \<in> {Compiled.action (ex_pair (Some (EHost ex_a)) (Some (EHost ex_b))),
                      ''LOG --log-level '' @ str_int (Compiled.log_val (ex_pair (Some (EHost ex_a)) (Some (EHost ex_b))))
                        @ '' --log-prefix '' @ Compiled.name (ex_pair (Some (EHost ex_a)) (Some (EHost ex_b)))}.
               l = pfx @ Compiled.proto (ex_pair (Some (EHost ex_a)) (Some (EHost ex_b)))
               @ (case Compiled.src (ex_pair (Some (EHost ex_a)) (Some (EHost ex_b))) of
                    None \<Rightarrow> [] | Some x \<Rightarrow> '' -s '' @ ipt x)
               @ Compiled.sports (ex_pair (Some (EHost ex_a)) (Some (EHost ex_b)))
               @ (case Compiled.dst (ex_pair (Some (EHost ex_a)) (Some (EHost ex_b))) of
                    None \<Rightarrow> [] | Some y \<Rightarrow> '' -d '' @ ipt y)
               @ Compiled.dports (ex_pair (Some (EHost ex_a)) (Some (EHost ex_b))) @ '' -j '' @ sfx) \<and>
            (\<forall>x y. Compiled.src (ex_pair (Some (EHost ex_a)) (Some (EHost ex_b))) = Some x \<and>
                   Compiled.dst (ex_pair (Some (EHost ex_a)) (Some (EHost ex_b))) = Some y \<longrightarrow>
                   ipt x \<noteq> ipt y)"
    by blast
  from r have "c' = \<lparr>INPUT = [stateful, '' -s 10.0.0.5 -d 10.0.1.7 -j ACCEPT''],
                       OUTPUT = [stateful], FORWARD = [''-j DROP'']\<rparr>"
    by (simp add: ex_b_def) (metis map_upd_eqD1)
  with i have "ai = ['' -s 10.0.0.5 -d 10.0.1.7 -j ACCEPT'']"
    by (simp add: first_rules_def)
  then have "'' -s 10.0.0.5 -d 10.0.1.7 -j ACCEPT'' \<in> set ai \<union> set ao \<union> set af"
    by simp
  from bspec [OF all this] obtain pfx sfx where
    eq: "'' -s 10.0.0.5 -d 10.0.1.7 -j ACCEPT'' =
           pfx @ Compiled.proto (ex_pair (Some (EHost ex_a)) (Some (EHost ex_b)))
               @ (case Compiled.src (ex_pair (Some (EHost ex_a)) (Some (EHost ex_b))) of
                    None \<Rightarrow> [] | Some x \<Rightarrow> '' -s '' @ ipt x)
               @ Compiled.sports (ex_pair (Some (EHost ex_a)) (Some (EHost ex_b)))
               @ (case Compiled.dst (ex_pair (Some (EHost ex_a)) (Some (EHost ex_b))) of
                    None \<Rightarrow> [] | Some y \<Rightarrow> '' -d '' @ ipt y)
               @ Compiled.dports (ex_pair (Some (EHost ex_a)) (Some (EHost ex_b))) @ '' -j '' @ sfx"
    and ne: "\<forall>x y. Compiled.src (ex_pair (Some (EHost ex_a)) (Some (EHost ex_b))) = Some x \<and>
                   Compiled.dst (ex_pair (Some (EHost ex_a)) (Some (EHost ex_b))) = Some y \<longrightarrow>
                   ipt x \<noteq> ipt y"
    by blast
  from eq have "'' -s 10.0.0.5 -d 10.0.1.7 -j ACCEPT'' =
      pfx @ '' -s '' @ ipt (EHost ex_a) @ '' -d '' @ ipt (EHost ex_b) @ '' -j '' @ sfx"
    by (simp add: ex_pair_def)
  moreover from ne have "ipt (EHost ex_a) \<noteq> ipt (EHost ex_b)"
    by (simp add: ex_pair_def)
  ultimately have 4: "(\<exists>pfx sfx. '' -s 10.0.0.5 -d 10.0.1.7 -j ACCEPT'' =
      pfx @ '' -s '' @ ipt (EHost ex_a) @ '' -d '' @ ipt (EHost ex_b) @ '' -j '' @ sfx) \<and>
      ipt (EHost ex_a) \<noteq> ipt (EHost ex_b)"
    by blast
  from 1 2 3 ev 4 show ?thesis by blast
qed

text \<open>
  C6 as stated fails on a rule from the network \<open>lan\<close> to the network \<open>lan\<close>: both endpoints
  are networks and the pair is skipped; the host \<open>a\<close>, which lies in \<open>lan\<close>, gets no line.
\<close>

theorem skip_pair_counterexample:
  "skip_pair (Some (ENet ex_lan)) (Some (ENet ex_lan)) \<and>
   splice_host (net_dict (ex_model [])) (ex_pair (Some (ENet ex_lan)) (Some (ENet ex_lan))) Map.empty ex_a =
     Inr [''a'' \<mapsto> first_rules ex_a]"
  by (simp add: skip_pair_def splice_host_def ex_pair_def ex_a_def)

section \<open>The rule compiler: what each chain receives\<close>

lemma splice_host_result:
  assumes "splice_host net t rd h = Inr rd'"
  shows "\<exists>c'. rd' = rd(hostname h \<mapsto> c')
      \<and> INPUT c' = input_of rd (hostname h) @ emitted_input t h
      \<and> OUTPUT c' = output_of rd (hostname h) @ emitted_output t h"
proof (cases "skip_pair (Compiled.src t) (Compiled.dst t)")
  case True
  with assms show ?thesis
    by (auto simp add: splice_host_def input_of_def output_of_def emitted_input_def
        emitted_output_def first_rules_def split: option.splits)
next
  case False
  define c0 where "c0 = (case rd (hostname h) of None \<Rightarrow> first_rules h | Some c \<Rightarrow> c)"
  define c2 where "c2 = c0\<lparr>INPUT := INPUT c0 @ input_lines t h, OUTPUT := OUTPUT c0 @ output_lines t h\<rparr>"
  have in0: "INPUT c0 = input_of rd (hostname h)" and out0: "OUTPUT c0 = output_of rd (hostname h)"
    by (simp_all add: c0_def input_of_def output_of_def first_rules_def split: option.splits)
  have "rd' = rd(hostname h \<mapsto> c2) \<or> rd' = rd(hostname h \<mapsto> c2\<lparr>FORWARD := FORWARD c2 @ [log_line t, action_line t]\<rparr>)"
    using assms False unfolding splice_host_def Let_def c0_def [symmetric] bind_err_def
    by (auto simp add: c2_def split: if_splits sum.splits)
  then show ?thesis
    using False in0 out0 by (auto simp add: c2_def emitted_input_def emitted_output_def)
qed

lemma splice_host_chains:
  assumes "splice_host net t rd h = Inr rd'"
  shows "input_of rd' hn = input_of rd hn @ (if hostname h = hn then emitted_input t h else [])"
    and "output_of rd' hn = output_of rd hn @ (if hostname h = hn then emitted_output t h else [])"
    and "rd' hn \<noteq> None \<longleftrightarrow> rd hn \<noteq> None \<or> hostname h = hn"
proof -
  from splice_host_result [OF assms] obtain c' where
    c: "rd' = rd(hostname h \<mapsto> c')"
      "INPUT c' = input_of rd (hostname h) @ emitted_input t h"
      "OUTPUT c' = output_of rd (hostname h) @ emitted_output t h" by blast
  show "input_of rd' hn = input_of rd hn @ (if hostname h = hn then emitted_input t h else [])"
    using c by (simp add: input_of_def)
  show "output_of rd' hn = output_of rd hn @ (if hostname h = hn then emitted_output t h else [])"
    using c by (simp add: output_of_def)
  show "rd' hn \<noteq> None \<longleftrightarrow> rd hn \<noteq> None \<or> hostname h = hn"
    using c by simp
qed

lemma splice_hosts_chains:
  assumes "foldM_err (splice_host net t) rd hs = Inr rd'"
  shows "input_of rd' hn = input_of rd hn @ concat (map (emitted_input t) (rows_of hn hs))
    \<and> output_of rd' hn = output_of rd hn @ concat (map (emitted_output t) (rows_of hn hs))
    \<and> (rd' hn \<noteq> None \<longleftrightarrow> rd hn \<noteq> None \<or> rows_of hn hs \<noteq> [])"
  using assms
proof (induction hs arbitrary: rd)
  case Nil
  then show ?case by (simp add: rows_of_def)
next
  case (Cons h hs)
  from Cons.prems obtain rd1 where
    1: "splice_host net t rd h = Inr rd1" and 2: "foldM_err (splice_host net t) rd1 hs = Inr rd'"
    by (auto split: sum.splits)
  note a = splice_host_chains [OF 1, of hn]
  note b = Cons.IH [OF 2]
  show ?case
  proof (cases "hostname h = hn")
    case True
    with a b show ?thesis by (simp add: rows_of_def)
  next
    case False
    with a b show ?thesis by (simp add: rows_of_def)
  qed
qed

lemma splice_compiled_chains:
  assumes "foldM_err (\<lambda>rd t. foldM_err (splice_host net t) rd hs) rd cs = Inr rd'"
  shows "input_of rd' hn = input_of rd hn @ concat (map (\<lambda>t. concat (map (emitted_input t) (rows_of hn hs))) cs)
    \<and> output_of rd' hn = output_of rd hn @ concat (map (\<lambda>t. concat (map (emitted_output t) (rows_of hn hs))) cs)
    \<and> (rd' hn \<noteq> None \<longleftrightarrow> rd hn \<noteq> None \<or> (cs \<noteq> [] \<and> rows_of hn hs \<noteq> []))"
  using assms
proof (induction cs arbitrary: rd)
  case Nil
  then show ?case by simp
next
  case (Cons t cs)
  from Cons.prems obtain rd1 where
    1: "foldM_err (splice_host net t) rd hs = Inr rd1"
    and 2: "foldM_err (\<lambda>rd t. foldM_err (splice_host net t) rd hs) rd1 cs = Inr rd'"
    by (auto split: sum.splits)
  note a = splice_hosts_chains [OF 1, of hn]
  note b = Cons.IH [OF 2]
  from a b show ?case by auto
qed

lemma splice_chains:
  assumes "splice self cs = Inr rd"
  shows "input_of rd hn = stateful # concat (map (\<lambda>t. concat (map (emitted_input t) (rows_of hn (hosts self)))) cs)"
    and "output_of rd hn = stateful # concat (map (\<lambda>t. concat (map (emitted_output t) (rows_of hn (hosts self)))) cs)"
    and "rd hn \<noteq> None \<longleftrightarrow> cs \<noteq> [] \<and> rows_of hn (hosts self) \<noteq> []"
  using splice_compiled_chains [OF assms [unfolded splice_def], of hn]
  by (simp_all add: input_of_def output_of_def)

lemma count_list_per_row: "length rows \<le> count_list (concat (map (\<lambda>h. l h @ [x]) rows)) x"
  by (induction rows) simp_all

lemma count_list_mid: "n \<le> count_list b x \<Longrightarrow> n \<le> count_list (a @ b @ c) x"
  by simp

lemma compile_rules_splice:
  "compile_rules limit self = Inr rd \<Longrightarrow> compile_list limit self = Inr cs \<Longrightarrow> splice self cs = Inr rd"
  by (auto simp add: compile_rules_def bind_err_def split: sum.splits if_splits)

text \<open>
  Let the compiler succeed, let \<open>t\<close> be a compiled entry, and let a hostname have the rows
  \<open>rows\<close>, at least one, in the hosts table. If the destination of \<open>t\<close> is the wildcard,
  the INPUT chain of that hostname holds, for each row in turn, the action line of \<open>t\<close>
  (after its LOG line when the log level is not 0); likewise for the OUTPUT chain when the
  source of \<open>t\<close> is the wildcard.
\<close>

lemma entry_once_per_row:
  assumes "compile_rules limit self = Inr rd"
    and "compile_list limit self = Inr (pre @ t # post)"
    and "rows = filter (\<lambda>h. hostname h = hn) (hosts self)"
    and "rows \<noteq> []"
  shows "(Compiled.dst t = None \<longrightarrow>
           (\<exists>ch before after. rd hn = Some ch \<and>
              INPUT ch = before @
                concat (map (\<lambda>h. (if Compiled.log_val t \<noteq> 0 then [input_log_line h t] else []) @ [action_line t]) rows)
                @ after \<and>
              length rows \<le> count_list (INPUT ch) (action_line t))) \<and>
         (Compiled.src t = None \<longrightarrow>
           (\<exists>ch before after. rd hn = Some ch \<and>
              OUTPUT ch = before @
                concat (map (\<lambda>h. (if Compiled.log_val t \<noteq> 0 then [log_line t] else []) @ [action_line t]) rows)
                @ after \<and>
              length rows \<le> count_list (OUTPUT ch) (action_line t)))"
proof -
  have sp: "splice self (pre @ t # post) = Inr rd"
    using assms(1,2) by (rule compile_rules_splice)
  have rows: "rows_of hn (hosts self) = rows" by (simp add: rows_of_def assms(3))
  from splice_chains(3) [OF sp, of hn] assms(4) rows obtain ch where ch: "rd hn = Some ch" by auto
  show ?thesis
  proof (intro conjI impI)
    assume d: "Compiled.dst t = None"
    then have e: "emitted_input t = (\<lambda>h. (if Compiled.log_val t \<noteq> 0 then [input_log_line h t] else []) @ [action_line t])"
      by (auto simp add: emitted_input_def skip_pair_def input_lines_def host_in_def split: option.splits)
    let ?seg = "concat (map (\<lambda>h. (if Compiled.log_val t \<noteq> 0 then [input_log_line h t] else []) @ [action_line t]) rows)"
    let ?f = "\<lambda>t. concat (map (emitted_input t) rows)"
    have "INPUT ch = (stateful # concat (map ?f pre)) @ ?seg @ concat (map ?f post)"
      using splice_chains(1) [OF sp, of hn] ch rows e by (simp add: input_of_def)
    moreover have "length rows \<le> count_list ?seg (action_line t)"
      by (rule count_list_per_row)
    then have "length rows \<le> count_list ((stateful # concat (map ?f pre)) @ ?seg @ concat (map ?f post)) (action_line t)"
      by (rule count_list_mid)
    ultimately have "INPUT ch = (stateful # concat (map ?f pre)) @ ?seg @ concat (map ?f post)
        \<and> length rows \<le> count_list (INPUT ch) (action_line t)"
      by (simp only:)
    then
    show "\<exists>ch before after. rd hn = Some ch \<and> INPUT ch = before @ ?seg @ after \<and>
              length rows \<le> count_list (INPUT ch) (action_line t)"
      using ch by blast
  next
    assume s: "Compiled.src t = None"
    then have e: "emitted_output t = (\<lambda>h. (if Compiled.log_val t \<noteq> 0 then [log_line t] else []) @ [action_line t])"
      by (auto simp add: emitted_output_def skip_pair_def output_lines_def host_in_def split: option.splits)
    let ?seg = "concat (map (\<lambda>h. (if Compiled.log_val t \<noteq> 0 then [log_line t] else []) @ [action_line t]) rows)"
    let ?f = "\<lambda>t. concat (map (emitted_output t) rows)"
    have "OUTPUT ch = (stateful # concat (map ?f pre)) @ ?seg @ concat (map ?f post)"
      using splice_chains(2) [OF sp, of hn] ch rows e by (simp add: output_of_def)
    moreover have "length rows \<le> count_list ?seg (action_line t)"
      by (rule count_list_per_row)
    then have "length rows \<le> count_list ((stateful # concat (map ?f pre)) @ ?seg @ concat (map ?f post)) (action_line t)"
      by (rule count_list_mid)
    ultimately have "OUTPUT ch = (stateful # concat (map ?f pre)) @ ?seg @ concat (map ?f post)
        \<and> length rows \<le> count_list (OUTPUT ch) (action_line t)"
      by (simp only:)
    then
    show "\<exists>ch before after. rd hn = Some ch \<and> OUTPUT ch = before @ ?seg @ after \<and>
              length rows \<le> count_list (OUTPUT ch) (action_line t)"
      using ch by blast
  qed
qed

text \<open>
  With at least one compiled entry, every hostname of the hosts table is a key of the result,
  and its INPUT and OUTPUT chains start with the stateful accept line.
\<close>

lemma first_rules_present:
  assumes "compile_rules limit self = Inr rd" and "compile_list limit self = Inr cs"
    and "cs \<noteq> []" and "h \<in> set (hosts self)"
  shows "\<exists>ch. rd (hostname h) = Some ch \<and> hd (INPUT ch) = stateful \<and> hd (OUTPUT ch) = stateful"
proof -
  have sp: "splice self cs = Inr rd" using assms(1,2) by (rule compile_rules_splice)
  have "rows_of (hostname h) (hosts self) \<noteq> []"
    using assms(4) by (auto simp add: rows_of_def filter_empty_conv)
  with splice_chains(3) [OF sp, of "hostname h"] assms(3) obtain ch where
    ch: "rd (hostname h) = Some ch" by auto
  with splice_chains(1,2) [OF sp, of "hostname h"] show ?thesis
    by (simp add: input_of_def output_of_def)
qed

text \<open>No entry of a tuple of a string and an integer is equal to an endpoint object.\<close>

lemma routed_loop_never: "routed_loop s d routed_nets = False"
  by (induction routed_nets) (auto simp add: tuple_in_def to_pyval_def split: option.splits)

section \<open>The compiler on the small fleet\<close>

lemmas ex_defs = ex_fw0_def ex_fw1_def ex_a_def ex_b_def ex_dmz_def ex_lan_def ex_rule_def
  ex_model_def ex_pair_def

lemmas expand_defs = compile_list_def flat_hg_dict_def py_dict_def bind_err_def expand_rule_def
  res_def host_by_name_col_iface_def net_by_name_def lookup_def proto_port_dict_def proto_ok_def
  truthy_def validc_def py_int_def py_strip_def is_space_def parse_nat_def digit_val_def
  proto_str_def ports_str_def

lemmas splice_defs = splice_def splice_host_def net_dict_def skip_pair_def input_lines_def
  output_lines_def host_in_def Host_contains_def oo_forwarded_def mynetwork_def Network_init_def
  net_addr_def endpoint_ip_def first_rules_def tuple_in_def to_pyval_def

lemmas line_defs = action_line_def log_line_def input_log_line_def matcher_def src_str_def
  dst_str_def str_int_def ip_str_def octet_def dec.simps digit_char_def

lemma ex_model_clean: "save_needed (ex_model rs) = Inr False"
  unfolding save_needed_def str_in_def ex_model_def ex_clean_def
  apply simp
  by code_simp

lemma ex_wild_compiled:
  "compile_list 1000 (ex_model [ex_rule ''r'' ''*'' ''*'' ''0'']) = Inr [ex_pair None None]"
  by (simp add: expand_defs ex_defs)

lemma ex_wild_rules:
  "compile_rules 1000 (ex_model [ex_rule ''r'' ''*'' ''*'' ''0'']) = Inr ex_wild_rd"
  unfolding compile_rules_def
  apply (simp add: ex_model_clean)
  apply (simp add: expand_defs ex_defs splice_defs line_defs Let_def ex_wild_rd_def)
  done

text \<open>
  C1 on the small fleet with no rule, and with one disabled rule: the compiler returns the
  empty dictionary, with no entry and no first rules for any of the three hostnames.
\<close>

theorem no_rule_no_entry:
  "compile_rules 1000 (ex_model []) = Inr Map.empty \<and>
   compile_rules 1000 (ex_model [(ex_rule ''r'' ''a:eth0'' ''b:eth0'' ''0'')\<lparr>Rule.enabled := ''0''\<rparr>])
     = Inr Map.empty"
  unfolding compile_rules_def
  apply (simp add: ex_model_clean)
  apply (simp add: expand_defs splice_def ex_model_def ex_rule_def)
  done

text \<open>
  C2 on the small fleet. The firewall row \<open>fw:eth0\<close> routes \<open>dmz\<close>; the source \<open>dmz\<close> is not
  the wildcard, has another address than the row and lies outside its connected network; the
  routed network \<open>dmz\<close> contains the source and not the destination \<open>b\<close>. Yet
  \<^verbatim>\<open>_oo_forwarded\<close> answers false, and the FORWARD chain of \<open>fw\<close> keeps only its first
  rule.
\<close>

theorem routed_pair_not_forwarded:
  "oo_forwarded (Some (ENet ex_dmz)) (Some (EHost ex_b)) ex_fw0 [(0x0A000200, 24)] = Inr False \<and>
   Network_contains ex_dmz (Some (ENet ex_dmz)) \<and>
   \<not> Network_contains ex_dmz (Some (EHost ex_b)) \<and>
   chain_at FORWARD ''fw'' (compile_rules 1000 (ex_model [ex_rule ''r'' ''dmz'' ''b:eth0'' ''0'']))
     = Inr (Some [stateful])"
  unfolding compile_rules_def chain_at_def
  apply (simp add: ex_model_clean)
  apply (simp add: expand_defs ex_defs splice_defs line_defs Let_def)
  done

text \<open>
  C3 on the small fleet. The rule from \<open>a\<close> to \<open>b\<close> has log level 0 and is forwarded by the
  row \<open>fw:eth0\<close>: the FORWARD chain of \<open>fw\<close> receives a LOG line with level 0 before the
  action line, while the INPUT chain of \<open>b\<close> receives the action line only.
\<close>

theorem forward_log_at_level_0:
  "chain_at FORWARD ''fw'' (compile_rules 1000 (ex_model [ex_rule ''r'' ''a:eth0'' ''b:eth0'' ''0'']))
     = Inr (Some [stateful,
                  '' -s 10.0.0.5 -d 10.0.1.7 -j LOG --log-level 0 --log-prefix r'',
                  '' -s 10.0.0.5 -d 10.0.1.7 -j ACCEPT'']) \<and>
   chain_at INPUT ''b'' (compile_rules 1000 (ex_model [ex_rule ''r'' ''a:eth0'' ''b:eth0'' ''0'']))
     = Inr (Some [stateful, '' -s 10.0.0.5 -d 10.0.1.7 -j ACCEPT''])"
  unfolding compile_rules_def chain_at_def
  apply (simp add: ex_model_clean)
  apply (simp add: expand_defs ex_defs splice_defs line_defs Let_def)
  done

text \<open>
  C4 on the small fleet, saved and with no rule: \<^verbatim>\<open>compile_dict()\<close> ends with a
  \<^verbatim>\<open>TypeError\<close> at the first row of the hosts table, and returns no mapping.
\<close>

theorem compile_dict_type_error:
  "compile_dict ex_keys 1000 (ex_model []) None None = Inl TypeError"
proof -
  have "compile_rules 1000 (ex_model []) = Inr Map.empty"
    unfolding compile_rules_def
    apply (simp add: ex_model_clean)
    apply (simp add: expand_defs splice_def ex_model_def)
    done
  then show ?thesis
    unfolding compile_dict_def compile_def
    apply (simp add: ex_model_clean bind_err_def)
    apply (simp add: compile_dict_step_def ex_model_def)
    done
qed

section \<open>Address arithmetic on the small fleet\<close>

theorem Network_contains_laws_witness:
  "Network_contains ex_lan (Some (EHost ex_a)) \<and>
   \<not> Network_contains ex_lan (Some (EHost ex_b)) \<and>
   Network_contains ex_lan (Some (ENet ex_lan)) \<and>
   \<not> Network_contains ex_lan (Some (ENet ex_dmz))"
  using Network_contains_laws [of ex_lan ex_a ex_lan ex_lan]
    Network_contains_laws [of ex_lan ex_b ex_lan ex_dmz]
  by (simp add: masked_by_prefix_def ex_lan_def ex_a_def ex_b_def ex_dmz_def)

section \<open>A rule with a wildcard end, on a hostname with several rows\<close>

lemma list_all2_pick: "list_all2 P xs ys \<Longrightarrow> x \<in> set xs \<Longrightarrow> \<exists>y \<in> set ys. P x y"
  by (induction rule: list_all2_induct) auto

lemma compile_rules_list:
  "compile_rules limit self = Inr rd \<Longrightarrow> \<exists>cs. compile_list limit self = Inr cs"
  by (auto simp add: compile_rules_def bind_err_def split: sum.splits if_splits)

text \<open>
  What \<^verbatim>\<open>compile_rules\<close> appends to \<^verbatim>\<open>compiled\<close> for an enabled rule: one entry for each pair
  of an endpoint of the source and an endpoint of the destination.
\<close>

lemma rule_entries:
  assumes cl: "compile_list limit self = Inr cs"
    and fh: "flat_hg_dict limit self = Inr flat_hg"
    and rule: "rule \<in> set (rules self)" "Rule.enabled rule \<noteq> ''0''"
    and srcs: "res self flat_hg (Rule.src rule) = Inr srcs" "s \<in> set srcs"
    and dsts: "res self flat_hg (Rule.dst rule) = Inr dsts" "d \<in> set dsts"
  shows "\<exists>sproto sp dproto dp lv.
           proto_port_dict self (Rule.src_serv rule) = Some (sproto, sp) \<and>
           proto_port_dict self (Rule.dst_serv rule) = Some (dproto, dp) \<and>
           py_int (Rule.log_level rule) = Some lv \<and>
           \<lparr>Compiled.proto = proto_str sproto dproto, src = s,
            sports = ports_str ''--sport'' sp, dst = d,
            dports = ports_str ''--dport'' dp, log_val = lv,
            name = Rule.name rule, action = Rule.action rule\<rparr> \<in> set cs"
proof -
  from cl fh obtain ls where
    ls: "mapM_err (expand_rule self flat_hg) (rules self) = Inr ls" and cs: "cs = concat ls"
    by (auto simp add: compile_list_def bind_err_def split: sum.splits)
  from list_all2_pick [OF mapM_err_Inr_D [OF ls] rule(1)] obtain l where
    l: "l \<in> set ls" "expand_rule self flat_hg rule = Inr l"
    by blast
  have "\<exists>sproto sp dproto dp lv.
           proto_port_dict self (Rule.src_serv rule) = Some (sproto, sp) \<and>
           proto_port_dict self (Rule.dst_serv rule) = Some (dproto, dp) \<and>
           py_int (Rule.log_level rule) = Some lv \<and>
           \<lparr>Compiled.proto = proto_str sproto dproto, src = s,
            sports = ports_str ''--sport'' sp, dst = d,
            dports = ports_str ''--dport'' dp, log_val = lv,
            name = Rule.name rule, action = Rule.action rule\<rparr> \<in> set l"
    using l(2) rule(2) srcs dsts
    by (auto simp add: expand_rule_def bind_err_def lookup_def image_iff
        split: if_splits sum.splits option.splits prod.splits)
  with l(1) cs show ?thesis by auto
qed

text \<open>
  C10, as the code has it. Let the compiler succeed, let a hostname have the rows \<open>rows\<close>, at
  least one, in the hosts table, and take an enabled rule, an endpoint \<open>s\<close> that its source
  resolves to and an endpoint \<open>d\<close> that its destination resolves to. The compiler builds the
  entry \<open>t\<close> of the rule for that pair. If \<open>d\<close> is the wildcard, the INPUT chain of the hostname
  holds, for each row in turn, the action line of \<open>t\<close> (after its LOG line when the log level
  is not 0), so that it holds the action line at least as many times as the hostname has rows;
  likewise for the OUTPUT chain when \<open>s\<close> is the wildcard. The lines are those of one pair of
  endpoints: a rule gives them for each pair that it resolves to, and for no other.
\<close>

theorem wildcard_rule_once_per_interface:
  assumes "compile_rules limit self = Inr rd"
    and "flat_hg_dict limit self = Inr flat_hg"
    and "rule \<in> set (rules self)" and "Rule.enabled rule \<noteq> ''0''"
    and "res self flat_hg (Rule.src rule) = Inr srcs" and "s \<in> set srcs"
    and "res self flat_hg (Rule.dst rule) = Inr dsts" and "d \<in> set dsts"
    and "rows = filter (\<lambda>h. hostname h = hn) (hosts self)" and "rows \<noteq> []"
  shows "\<exists>sproto sp dproto dp lv t.
           proto_port_dict self (Rule.src_serv rule) = Some (sproto, sp) \<and>
           proto_port_dict self (Rule.dst_serv rule) = Some (dproto, dp) \<and>
           py_int (Rule.log_level rule) = Some lv \<and>
           t = \<lparr>Compiled.proto = proto_str sproto dproto, src = s,
                sports = ports_str ''--sport'' sp, dst = d,
                dports = ports_str ''--dport'' dp, log_val = lv,
                name = Rule.name rule, action = Rule.action rule\<rparr> \<and>
           (d = None \<longrightarrow>
             (\<exists>ch before after. rd hn = Some ch \<and>
                INPUT ch = before @
                  concat (map (\<lambda>h. (if lv \<noteq> 0 then [input_log_line h t] else []) @ [action_line t]) rows)
                  @ after \<and>
                length rows \<le> count_list (INPUT ch) (action_line t))) \<and>
           (s = None \<longrightarrow>
             (\<exists>ch before after. rd hn = Some ch \<and>
                OUTPUT ch = before @
                  concat (map (\<lambda>h. (if lv \<noteq> 0 then [log_line t] else []) @ [action_line t]) rows)
                  @ after \<and>
                length rows \<le> count_list (OUTPUT ch) (action_line t)))"
proof -
  from compile_rules_list [OF assms(1)] obtain cs where cs: "compile_list limit self = Inr cs"
    by blast
  from rule_entries [OF cs assms(2-8)] obtain sproto sp dproto dp lv where
    f: "proto_port_dict self (Rule.src_serv rule) = Some (sproto, sp)"
      "proto_port_dict self (Rule.dst_serv rule) = Some (dproto, dp)"
      "py_int (Rule.log_level rule) = Some lv"
    and t: "\<lparr>Compiled.proto = proto_str sproto dproto, src = s,
            sports = ports_str ''--sport'' sp, dst = d,
            dports = ports_str ''--dport'' dp, log_val = lv,
            name = Rule.name rule, action = Rule.action rule\<rparr> \<in> set cs"
    by blast
  define t where "t = \<lparr>Compiled.proto = proto_str sproto dproto, src = s,
            sports = ports_str ''--sport'' sp, dst = d,
            dports = ports_str ''--dport'' dp, log_val = lv,
            name = Rule.name rule, action = Rule.action rule\<rparr>"
  have sel: "Compiled.src t = s" "Compiled.dst t = d" "Compiled.log_val t = lv"
    by (simp_all add: t_def)
  from t obtain pre post where "cs = pre @ t # post"
    unfolding t_def [symmetric] by (auto dest: split_list)
  with cs have "compile_list limit self = Inr (pre @ t # post)" by simp
  from entry_once_per_row [OF assms(1) this assms(9,10)] sel
  have "(d = None \<longrightarrow>
             (\<exists>ch before after. rd hn = Some ch \<and>
                INPUT ch = before @
                  concat (map (\<lambda>h. (if lv \<noteq> 0 then [input_log_line h t] else []) @ [action_line t]) rows)
                  @ after \<and>
                length rows \<le> count_list (INPUT ch) (action_line t))) \<and>
           (s = None \<longrightarrow>
             (\<exists>ch before after. rd hn = Some ch \<and>
                OUTPUT ch = before @
                  concat (map (\<lambda>h. (if lv \<noteq> 0 then [log_line t] else []) @ [action_line t]) rows)
                  @ after \<and>
                length rows \<le> count_list (OUTPUT ch) (action_line t)))"
    by simp
  with f t_def show ?thesis by blast
qed



text \<open>
  The small fleet with the one rule from \<open>*\<close> to \<open>*\<close>: the hostname \<open>fw\<close> has two rows, and
  its INPUT chain and its OUTPUT chain hold the action line of the rule twice.
\<close>

theorem wildcard_rule_once_per_interface_witness:
  "compile_rules 1000 (ex_model [ex_rule ''r'' ''*'' ''*'' ''0'']) = Inr ex_wild_rd \<and>
   filter (\<lambda>h. hostname h = ''fw'') (hosts (ex_model [ex_rule ''r'' ''*'' ''*'' ''0''])) = [ex_fw0, ex_fw1] \<and>
   (\<exists>ch. ex_wild_rd ''fw'' = Some ch \<and>
      2 \<le> count_list (INPUT ch) '' -j ACCEPT'' \<and> 2 \<le> count_list (OUTPUT ch) '' -j ACCEPT'')"
proof -
  let ?M = "ex_model [ex_rule ''r'' ''*'' ''*'' ''0'']"
  let ?r = "ex_rule ''r'' ''*'' ''*'' ''0''"
  have fh: "flat_hg_dict 1000 ?M = Inr Map.empty"
    by (simp add: flat_hg_dict_def bind_err_def py_dict_def ex_model_def)
  have r: "?r \<in> set (rules ?M)" "Rule.enabled ?r \<noteq> ''0''"
    by (simp_all add: ex_model_def ex_rule_def)
  have rs: "res ?M Map.empty (Rule.src ?r) = Inr [None]" "res ?M Map.empty (Rule.dst ?r) = Inr [None]"
    by (simp_all add: res_def host_by_name_col_iface_def net_by_name_def py_dict_def ex_defs)
  have rows: "[ex_fw0, ex_fw1] = filter (\<lambda>h. hostname h = ''fw'') (hosts ?M)"
    by (simp add: ex_defs)
  have pp: "proto_port_dict ?M (Rule.src_serv ?r) = Some (None, [])"
    "proto_port_dict ?M (Rule.dst_serv ?r) = Some (None, [])"
    "py_int (Rule.log_level ?r) = Some 0"
    by (simp_all add: proto_port_dict_def py_dict_def py_int_def py_strip_def is_space_def
        parse_nat_def digit_val_def ex_defs)
  have mem: "(None :: endpoint option) \<in> set [None]"
    by simp
  from wildcard_rule_once_per_interface [of 1000 ?M ex_wild_rd Map.empty ?r "[None]" None
      "[None]" None "[ex_fw0, ex_fw1]" "''fw''", OF ex_wild_rules fh r rs(1) mem rs(2) mem rows]
  obtain sproto sp dproto dp lv t where
    f: "proto_port_dict ?M (Rule.src_serv ?r) = Some (sproto, sp)"
      "proto_port_dict ?M (Rule.dst_serv ?r) = Some (dproto, dp)"
      "py_int (Rule.log_level ?r) = Some lv"
    and t: "t = \<lparr>Compiled.proto = proto_str sproto dproto, src = None,
                sports = ports_str ''--sport'' sp, dst = None,
                dports = ports_str ''--dport'' dp, log_val = lv,
                name = Rule.name ?r, action = Rule.action ?r\<rparr>"
    and i: "(None :: endpoint option) = None \<longrightarrow> (\<exists>ch before after. ex_wild_rd ''fw'' = Some ch \<and>
                INPUT ch = before @
                  concat (map (\<lambda>h. (if lv \<noteq> 0 then [input_log_line h t] else []) @ [action_line t])
                    [ex_fw0, ex_fw1]) @ after \<and>
                length [ex_fw0, ex_fw1] \<le> count_list (INPUT ch) (action_line t))"
    and o: "(None :: endpoint option) = None \<longrightarrow> (\<exists>ch before after. ex_wild_rd ''fw'' = Some ch \<and>
                OUTPUT ch = before @
                  concat (map (\<lambda>h. (if lv \<noteq> 0 then [log_line t] else []) @ [action_line t])
                    [ex_fw0, ex_fw1]) @ after \<and>
                length [ex_fw0, ex_fw1] \<le> count_list (OUTPUT ch) (action_line t))"
    by blast
  from f pp have "sproto = None" "sp = []" "dproto = None" "dp = []" "lv = 0"
    by simp_all
  with t have al: "action_line t = '' -j ACCEPT''"
    by (simp add: line_defs proto_str_def truthy_def ports_str_def ex_rule_def)
  from i o al have "\<exists>ch. ex_wild_rd ''fw'' = Some ch \<and>
      2 \<le> count_list (INPUT ch) '' -j ACCEPT'' \<and> 2 \<le> count_list (OUTPUT ch) '' -j ACCEPT''"
    by auto
  with ex_wild_rules rows show ?thesis
    by simp
qed

text \<open>The small fleet with the empty host group, evaluated.\<close>

lemma flatten_object_numeral:
  "HostGroup_flatten (numeral k) hbn (HgObject g) =
     bind_err (mapM_err (\<lambda>c. HostGroup_flatten (pred_numeral k) hbn (HgName c)) (HostGroup.childs g))
       (\<lambda>leaves. Inr (concat leaves))"
  by (simp add: numeral_eq_Suc)

lemma ex_nobody_clean: "save_needed ex_model_nobody = Inr False"
  unfolding save_needed_def str_in_def ex_model_nobody_def ex_clean_def
  apply simp
  by code_simp

lemma ex_nobody_flat: "flat_hg_dict 1000 ex_model_nobody = Inr [''nobody'' \<mapsto> []]"
  by (simp add: flat_hg_dict_def flat_def bind_err_def py_dict_def flatten_object_numeral
      ex_model_nobody_def ex_nobody_def)

lemma ex_nobody_compiled:
  "compile_list 1000 ex_model_nobody = Inr [ex_pair (Some (EHost ex_a)) (Some (EHost ex_b))\<lparr>Compiled.name := ''r1''\<rparr>]"
  unfolding compile_list_def
  apply (simp add: ex_nobody_flat)
  apply (simp add: bind_err_def expand_rule_def res_def host_by_name_col_iface_def
      net_by_name_def lookup_def proto_port_dict_def proto_ok_def truthy_def validc_def
      py_int_def py_strip_def is_space_def parse_nat_def digit_val_def proto_str_def
      ports_str_def py_dict_def ex_defs ex_model_nobody_def)
  done

lemma ex_nobody_enabled:
  "list_all (\<lambda>rule. Rule.enabled rule \<in> {''1'', ''0''}) (rules ex_model_nobody)"
  by (simp add: ex_model_nobody_def ex_rule_def)

text \<open>
  C10 as stated fails on the second rule of that fleet: it is enabled, its destination is the
  wildcard and its source is a host group with no member. The hostname \<open>fw\<close> has two rows and
  the compiler succeeds, yet the INPUT chain of \<open>fw\<close> holds its first rule only: the rule
  expands to no pair of endpoints and adds no line to the chain.
\<close>

theorem empty_source_counterexample:
  "map (\<lambda>r. (Rule.enabled r, Rule.src r, Rule.dst r)) (rules ex_model_nobody) =
     [(''1'', ''a:eth0'', ''b:eth0''), (''1'', ''nobody'', ''*'')] \<and>
   filter (\<lambda>h. hostname h = ''fw'') (hosts ex_model_nobody) = [ex_fw0, ex_fw1] \<and>
   chain_at INPUT ''fw'' (compile_rules 1000 ex_model_nobody) = Inr (Some [stateful])"
proof -
  have "chain_at INPUT ''fw'' (compile_rules 1000 ex_model_nobody) = Inr (Some [stateful])"
    unfolding compile_rules_def chain_at_def
    apply (simp add: ex_nobody_clean ex_nobody_enabled ex_nobody_compiled bind_err_def)
    apply (simp add: bind_err_def lookup_def py_dict_def ex_defs splice_defs line_defs Let_def
        ex_model_nobody_def)
    done
  then show ?thesis
    by (simp add: ex_model_nobody_def ex_rule_def ex_fw0_def ex_fw1_def ex_a_def ex_b_def)
qed

end
